theory Spec2Isabelle
  imports Complex_Main "HOL-Library.Word"
begin

unbundle bit_operations_syntax

section \<open>The live voice session of LiveLab.tsx and its PCM codec\<close>

text \<open>
  The development embeds the component \<open>LiveLab\<close> (src/LiveLab.tsx) and the helpers
  \<open>encode\<close>, \<open>decode\<close> and \<open>decodeAudioData\<close> of services/gemini (the second part of
  src/VideoLab.tsx). JavaScript strings are modelled as \<open>string\<close>: the characters with
  code 0..255, which is all that \<open>String.fromCharCode\<close> of a byte produces and all that
  \<open>atob\<close> accepts. JavaScript numbers are modelled as \<open>real\<close>: a Float32 sample times
  32768 and a 16-bit integer divided by 32768 are exact in binary floating point, so
  the codec is modelled without rounding; the playback clock is idealised.
\<close>

subsection \<open>Platform exceptions\<close>

datatype js_error =
    InvalidCharacterError  \<comment> \<open>\<open>atob\<close> on a string that is not base64\<close>
  | RangeError             \<comment> \<open>\<open>new Int16Array(buffer)\<close> on an odd byte length\<close>
  | NotSupportedError      \<comment> \<open>\<open>createBuffer\<close> with no channel, no frame or no rate\<close>
  | TypeError              \<comment> \<open>\<open>parts[0]\<close> read on a \<open>modelTurn\<close> that has no \<open>parts\<close>\<close>

type_synonym byte = "8 word"
type_synonym int16 = "16 word"

subsection \<open>The built-ins \<open>btoa\<close> and \<open>atob\<close>\<close>

definition b64chars :: string where
  "b64chars = ''ABCDEFGHIJKLMNOPQRSTUVWXYZabcdefghijklmnopqrstuvwxyz0123456789+/''"

fun index_of :: "'a \<Rightarrow> 'a list \<Rightarrow> nat option" where
  "index_of x [] = None"
| "index_of x (y # ys) =
     (if x = y then Some 0 else map_option Suc (index_of x ys))"

fun sextets :: "nat list \<Rightarrow> nat list" where
  "sextets (a # b # c # rest) =
     [a div 4, (a mod 4) * 16 + b div 16, (b mod 16) * 4 + c div 64, c mod 64]
       @ sextets rest"
| "sextets [a, b] = [a div 4, (a mod 4) * 16 + b div 16, (b mod 16) * 4]"
| "sextets [a] = [a div 4, (a mod 4) * 16]"
| "sextets [] = []"

definition btoa :: "string \<Rightarrow> string" where
  \<comment> \<open>base64 of a binary string, padded with \<open>=\<close> to a multiple of four characters\<close>
  "btoa bin =
     map (\<lambda>n. b64chars ! n) (sextets (map of_char bin))
       @ replicate ((3 - length bin mod 3) mod 3) (CHR ''='')"

definition is_ascii_whitespace :: "char \<Rightarrow> bool" where
  "is_ascii_whitespace c = ((of_char c :: nat) \<in> {9, 10, 12, 13, 32})"

definition strip_padding :: "string \<Rightarrow> string" where
  "strip_padding d =
     (if 2 \<le> length d \<and> drop (length d - 2) d = ''=='' then take (length d - 2) d
      else if 1 \<le> length d \<and> drop (length d - 1) d = ''='' then take (length d - 1) d
      else d)"

fun those_list :: "'a option list \<Rightarrow> 'a list option" where
  "those_list [] = Some []"
| "those_list (None # _) = None"
| "those_list (Some x # xs) = map_option (Cons x) (those_list xs)"

fun octets :: "nat list \<Rightarrow> nat list" where
  "octets (s1 # s2 # s3 # s4 # rest) =
     [s1 * 4 + s2 div 16, (s2 mod 16) * 16 + s3 div 4, (s3 mod 4) * 64 + s4]
       @ octets rest"
| "octets [s1, s2, s3] = [s1 * 4 + s2 div 16, (s2 mod 16) * 16 + s3 div 4]"
| "octets [s1, s2] = [s1 * 4 + s2 div 16]"
| "octets _ = []"

definition atob :: "string \<Rightarrow> js_error + string" where
  \<comment> \<open>the forgiving base64 decode of the HTML standard\<close>
  "atob data =
     (let d1 = filter (\<lambda>c. \<not> is_ascii_whitespace c) data;
          d2 = (if length d1 mod 4 = 0 then strip_padding d1 else d1)
      in if length d2 mod 4 = 1 then Inl InvalidCharacterError
         else (case those_list (map (\<lambda>c. index_of c b64chars) d2) of
                 None \<Rightarrow> Inl InvalidCharacterError
               | Some ss \<Rightarrow> Inr (map char_of (octets ss))))"

subsection \<open>services/gemini: \<open>encode\<close>, \<open>decode\<close>, \<open>decodeAudioData\<close>\<close>

definition encode :: "byte list \<Rightarrow> string" where
  "encode bytes = btoa (map (\<lambda>b. char_of (unat b)) bytes)"

definition decode :: "string \<Rightarrow> js_error + byte list" where
  "decode base64 =
     (case atob base64 of
        Inl e \<Rightarrow> Inl e
      | Inr binaryString \<Rightarrow> Inr (map (\<lambda>c. word_of_nat (of_char c)) binaryString))"

text \<open>Typed-array views: an \<open>Int16Array\<close> over a byte buffer and back (little-endian).\<close>

definition int16_bytes :: "int16 \<Rightarrow> byte list" where
  "int16_bytes w = [ucast w, ucast (drop_bit 8 w)]"

definition Uint8Array_of_Int16Array :: "int16 list \<Rightarrow> byte list" where
  "Uint8Array_of_Int16Array ws = concat (map int16_bytes ws)"

fun int16_pairs :: "byte list \<Rightarrow> int16 list" where
  "int16_pairs (lo # hi # rest) = (push_bit 8 (ucast hi) OR ucast lo) # int16_pairs rest"
| "int16_pairs _ = []"

definition Int16Array_of_buffer :: "byte list \<Rightarrow> js_error + int16 list" where
  "Int16Array_of_buffer bytes =
     (if odd (length bytes) then Inl RangeError else Inr (int16_pairs bytes))"

record AudioBuffer =
  numberOfChannels :: nat
  buf_length :: nat
  sampleRate :: nat
  channelData :: "real list list"

definition duration :: "AudioBuffer \<Rightarrow> real" where
  "duration b = real (buf_length b) / real (sampleRate b)"

definition createBuffer :: "nat \<Rightarrow> nat \<Rightarrow> nat \<Rightarrow> js_error + AudioBuffer" where
  \<comment> \<open>\<open>BaseAudioContext.createBuffer\<close>: a silent buffer; zero channels, frames or rate are
      refused. The upper limits are implementation-defined and not reached by the callers
      (1 channel, 24000 Hz).\<close>
  "createBuffer nch len rate =
     (if nch = 0 \<or> len = 0 \<or> rate = 0 then Inl NotSupportedError
      else Inr \<lparr>numberOfChannels = nch, buf_length = len, sampleRate = rate,
                channelData = replicate nch (replicate len 0)\<rparr>)"

definition decodeAudioData :: "byte list \<Rightarrow> nat \<Rightarrow> nat \<Rightarrow> js_error + AudioBuffer" where
  "decodeAudioData data rate numChannels =
     (case Int16Array_of_buffer data of
        Inl e \<Rightarrow> Inl e
      | Inr dataInt16 \<Rightarrow>
          (case createBuffer numChannels (length dataInt16 div numChannels) rate of
             Inl e \<Rightarrow> Inl e
           | Inr buffer \<Rightarrow>
               Inr (buffer\<lparr>channelData :=
                 map (\<lambda>channel.
                        map (\<lambda>i. real_of_int (sint (dataInt16 ! (i * numChannels + channel))) / 32768)
                          [0..<buf_length buffer])
                   [0..<numChannels]\<rparr>)))"

subsection \<open>The capture side: Float32 samples to a base64 PCM frame\<close>

definition js_trunc :: "real \<Rightarrow> int" where
  "js_trunc v = (if 0 \<le> v then \<lfloor>v\<rfloor> else \<lceil>v\<rceil>)"

definition ToInt16 :: "real \<Rightarrow> int16" where
  \<comment> \<open>storing a number into an \<open>Int16Array\<close>: truncate, then wrap modulo \<open>2 ^ 16\<close>\<close>
  "ToInt16 v = word_of_int (js_trunc v)"

definition pcm_int16 :: "real list \<Rightarrow> int16 list" where
  \<comment> \<open>the loop of \<open>onaudioprocess\<close>: \<open>int16[i] = inputData[i] * 32768\<close>\<close>
  "pcm_int16 inputData = map (\<lambda>x. ToInt16 (x * 32768)) inputData"

definition encodeFrame :: "real list \<Rightarrow> string" where
  \<comment> \<open>\<open>pcmBlob.data\<close> of \<open>onaudioprocess\<close>: \<open>encode(new Uint8Array(int16.buffer))\<close>\<close>
  "encodeFrame inputData = encode (Uint8Array_of_Int16Array (pcm_int16 inputData))"

subsection \<open>LiveLab: the component's state\<close>

text \<open>
  The React state (\<open>useState\<close>) and the boxed references (\<open>useRef\<close>) of the component,
  the variables captured by the callbacks of each \<open>startSession\<close> call that reached
  \<open>ai.live.connect\<close> (\<open>calls\<close>: its \<open>sessionPromise\<close> with the \<open>then\<close>-callbacks waiting
  on it; the number \<open>k\<close> of a call is an argument of the callbacks that read these
  variables, so that a script processor left running by an earlier call still reads
  the promise of its own call), and what the component
  has done to the platform: the calls it made (\<open>effects\<close>) and the microphone streams
  whose tracks are live. A stream stays live, and the device held, until \<open>stop()\<close> is
  called on its tracks. Handlers run to completion one at a time; a state update is
  applied when the handler makes it. The awaited decode inside \<open>onmessage\<close> resolves
  without suspension on an external event, so one message is handled as one step.

  Streams and session handles are named by numbers that the platform supplies; a source
  node is named by a counter, since \<open>createBufferSource\<close> returns a new object each
  time. Left out, with no bearing on the state below: the client that \<open>getAI\<close>
  constructs, the two audio contexts that \<open>startSession\<close> creates and never closes (the
  output context's \<open>currentTime\<close> is an argument of \<open>onmessage\<close>), and the connection's
  configuration (model, voice, system instruction).
\<close>

datatype effect =
    GetUserMedia                    \<comment> \<open>\<open>navigator.mediaDevices.getUserMedia({audio: true})\<close>\<close>
  | LiveConnect                     \<comment> \<open>\<open>ai.live.connect(...)\<close>\<close>
  | CaptureConnect nat              \<comment> \<open>the script processor of call \<open>k\<close>, wired to its stream in \<open>onopen\<close>\<close>
  | SessionClose nat                \<comment> \<open>\<open>session.close()\<close>\<close>
  | SendRealtimeInput nat string    \<comment> \<open>\<open>session.sendRealtimeInput({media: pcmBlob})\<close>\<close>
  | SourceStart nat real            \<comment> \<open>\<open>source.start(when)\<close>\<close>
  | SourceStop nat                  \<comment> \<open>\<open>source.stop()\<close>\<close>

datatype promise = Pending | Fulfilled nat | Rejected

record start_call =
  sessionPromise :: promise
  thenQueue :: "string list"

record source_node =
  node_id :: nat
  buffer :: AudioBuffer
  startTime :: real

record live_state =
  isActive :: bool
  transcription :: "string list"
  isConnecting :: bool
  authError :: bool
  sessionRef :: "nat option"
  nextStartTimeRef :: real
  sourcesRef :: "source_node list"
  isStoppingRef :: bool
  calls :: "start_call list"
  effects :: "effect list"
  liveStreams :: "nat list"
  nextNode :: nat

definition init_state :: live_state where
  "init_state =
     \<lparr>isActive = False, transcription = [], isConnecting = False, authError = False,
      sessionRef = None, nextStartTimeRef = 0, sourcesRef = [], isStoppingRef = False,
      calls = [], effects = [], liveStreams = [], nextNode = 0\<rparr>"

datatype model_turn =
  ModelTurn (parts: "string option list option")
  \<comment> \<open>\<open>parts\<close>, when the turn has any, and of each part its \<open>inlineData?.data\<close>\<close>

record LiveServerMessage =
  outputTranscription :: "string option"  \<comment> \<open>\<open>serverContent.outputTranscription.text\<close>\<close>
  modelTurn :: "model_turn option"        \<comment> \<open>\<open>serverContent.modelTurn\<close>\<close>
  interrupted :: bool                     \<comment> \<open>\<open>serverContent.interrupted\<close>\<close>

definition base64Audio :: "LiveServerMessage \<Rightarrow> js_error + string option" where
  \<comment> \<open>\<open>message.serverContent?.modelTurn?.parts[0]?.inlineData?.data\<close>: the index is not
      guarded, so a turn without \<open>parts\<close> throws\<close>
  "base64Audio message =
     (case modelTurn message of
        None \<Rightarrow> Inr None
      | Some turn \<Rightarrow>
          (case parts turn of
             None \<Rightarrow> Inl TypeError
           | Some [] \<Rightarrow> Inr None
           | Some (part # _) \<Rightarrow> Inr part))"

subsection \<open>\<open>stopSession\<close>\<close>

definition session_ended :: string where
  "session_ended = ''[Session Ended]''"

definition stop_sources :: "live_state \<Rightarrow> live_state" where
  \<comment> \<open>\<open>sourcesRef.current.forEach(s => { try { s.stop(); } catch (e) {} }); sourcesRef.current.clear()\<close>\<close>
  "stop_sources s =
     s\<lparr>effects := effects s @ map (\<lambda>n. SourceStop (node_id n)) (sourcesRef s),
       sourcesRef := []\<rparr>"

definition stopSession :: "live_state \<Rightarrow> live_state" where
  "stopSession s =
     (if isStoppingRef s then s
      else
        let s1 = s\<lparr>isStoppingRef := True, isActive := False\<rparr>;
            s2 = (case sessionRef s1 of
                    None \<Rightarrow> s1
                  | Some h \<Rightarrow> s1\<lparr>effects := effects s1 @ [SessionClose h], sessionRef := None\<rparr>);
            s3 = s2\<lparr>transcription :=
                    (let prev = transcription s2
                     in if length prev > 0 \<and> prev ! (length prev - 1) = session_ended then prev
                        else prev @ [session_ended])\<rparr>
        in stop_sources s3)"

subsection \<open>\<open>startSession\<close>, one definition per stretch between two awaits\<close>

fun startsWith :: "string \<Rightarrow> string \<Rightarrow> bool" where
  "startsWith _ [] = True"
| "startsWith [] (p # ps) = False"
| "startsWith (c # cs) (p # ps) = (c = p \<and> startsWith cs ps)"

fun str_includes :: "string \<Rightarrow> string \<Rightarrow> bool" where
  "str_includes [] p = (p = [])"
| "str_includes (c # cs) p = (startsWith (c # cs) p \<or> str_includes cs p)"

definition toLowerCase_char :: "char \<Rightarrow> char" where
  "toLowerCase_char c =
     (let n = (of_char c :: nat)
      in if (65 \<le> n \<and> n \<le> 90) \<or> (192 \<le> n \<and> n \<le> 222 \<and> n \<noteq> 215) then char_of (n + 32)
         else c)"

definition toLowerCase :: "string \<Rightarrow> string" where
  "toLowerCase s = map toLowerCase_char s"

definition is_auth_error :: "string option \<Rightarrow> bool" where
  \<comment> \<open>\<open>e?.message?.includes('403') || e?.message?.toLowerCase().includes('permission')\<close>,
      on the error's \<open>message\<close> (\<open>None\<close> when it has none)\<close>
  "is_auth_error message =
     (case message of
        None \<Rightarrow> False
      | Some m \<Rightarrow> str_includes m ''403'' \<or> str_includes (toLowerCase m) ''permission'')"

definition startSession :: "live_state \<Rightarrow> live_state" where
  \<comment> \<open>up to \<open>await navigator.mediaDevices.getUserMedia(...)\<close>\<close>
  "startSession s =
     (let s1 = s\<lparr>authError := False\<rparr>;
          s2 = s1\<lparr>isConnecting := True\<rparr>;
          s3 = s2\<lparr>isStoppingRef := False\<rparr>
      in s3\<lparr>effects := effects s3 @ [GetUserMedia]\<rparr>)"

definition startSession_stream :: "live_state \<Rightarrow> nat \<Rightarrow> live_state" where
  \<comment> \<open>\<open>getUserMedia\<close> resolved with \<open>stream\<close>: the contexts are created and
      \<open>ai.live.connect\<close> is called, up to \<open>await sessionPromise\<close>. The call gets the
      number \<open>length (calls s)\<close>; its promise is a new one, and those of earlier calls
      stay as they are.\<close>
  "startSession_stream s stream =
     s\<lparr>liveStreams := liveStreams s @ [stream],
       effects := effects s @ [LiveConnect],
       calls := calls s @ [\<lparr>sessionPromise = Pending, thenQueue = []\<rparr>]\<rparr>"

definition sendFrame :: "live_state \<Rightarrow> nat \<Rightarrow> string \<Rightarrow> live_state" where
  \<comment> \<open>the \<open>then\<close>-callback of \<open>onaudioprocess\<close>\<close>
  "sendFrame s session data =
     (if \<not> isStoppingRef s then s\<lparr>effects := effects s @ [SendRealtimeInput session data]\<rparr>
      else s)"

definition startSession_session :: "live_state \<Rightarrow> nat \<Rightarrow> nat \<Rightarrow> live_state" where
  \<comment> \<open>\<open>sessionPromise\<close> of call \<open>k\<close> fulfilled with \<open>session\<close>:
      \<open>sessionRef.current = await sessionPromise\<close>, then the \<open>then\<close>-callbacks that were
      waiting on it, in order. A promise is settled once.\<close>
  "startSession_session s k session =
     (if k < length (calls s) \<and> sessionPromise (calls s ! k) = Pending then
        let s1 = s\<lparr>sessionRef := Some session\<rparr>;
            s2 = foldl (\<lambda>t data. sendFrame t session data) s1 (thenQueue (calls s ! k))
        in s2\<lparr>calls := (calls s)[k := \<lparr>sessionPromise = Fulfilled session, thenQueue = []\<rparr>]\<rparr>
      else s)"

definition startSession_catch :: "live_state \<Rightarrow> string option \<Rightarrow> live_state" where
  \<comment> \<open>the \<open>catch\<close> block: \<open>getUserMedia\<close> or \<open>sessionPromise\<close> rejected with \<open>err\<close>\<close>
  "startSession_catch s err =
     (let s1 = (if is_auth_error err then s\<lparr>authError := True\<rparr> else s)
      in s1\<lparr>isConnecting := False\<rparr>)"

definition sessionPromise_rejected :: "live_state \<Rightarrow> nat \<Rightarrow> string option \<Rightarrow> live_state" where
  \<comment> \<open>\<open>sessionPromise\<close> of call \<open>k\<close> rejected with \<open>err\<close>: the callbacks waiting on it do
      not run, and the call's \<open>await\<close> throws into its \<open>catch\<close> block\<close>
  "sessionPromise_rejected s k err =
     (if k < length (calls s) \<and> sessionPromise (calls s ! k) = Pending then
        startSession_catch
          (s\<lparr>calls := (calls s)[k := \<lparr>sessionPromise = Rejected, thenQueue = []\<rparr>]\<rparr>) err
      else s)"

subsection \<open>The callbacks given to \<open>ai.live.connect\<close>\<close>

text \<open>
  \<open>onopen\<close> of call \<open>k\<close> creates that call's script processor, whose \<open>onaudioprocess\<close>
  reads that call's \<open>sessionPromise\<close>; nothing disconnects a processor. The other
  callbacks read and write the shared references only, whichever call they belong to.
\<close>

definition onopen :: "live_state \<Rightarrow> nat \<Rightarrow> live_state" where
  "onopen s k =
     s\<lparr>isConnecting := False, isActive := True,
       transcription := transcription s @ [''[Connection Established]''],
       effects := effects s @ [CaptureConnect k]\<rparr>"

definition onaudioprocess :: "live_state \<Rightarrow> nat \<Rightarrow> real list \<Rightarrow> live_state" where
  \<comment> \<open>the processor of call \<open>k\<close>: \<open>sessionPromise.then(session => ...)\<close> runs the callback
      when the promise is fulfilled, keeps it waiting while the promise is pending, and
      never runs it when the promise is rejected\<close>
  "onaudioprocess s k inputData =
     (let data = encodeFrame inputData
      in if k < length (calls s) then
           (case sessionPromise (calls s ! k) of
              Fulfilled session \<Rightarrow> sendFrame s session data
            | Pending \<Rightarrow>
                s\<lparr>calls := (calls s)
                     [k := (calls s ! k)\<lparr>thenQueue := thenQueue (calls s ! k) @ [data]\<rparr>]\<rparr>
            | Rejected \<Rightarrow> s)
         else s)"

definition transcribe :: "LiveServerMessage \<Rightarrow> live_state \<Rightarrow> live_state" where
  \<comment> \<open>\<open>if (message.serverContent?.outputTranscription) { ... }\<close>\<close>
  "transcribe message s =
     (case outputTranscription message of
        None \<Rightarrow> s
      | Some text \<Rightarrow> s\<lparr>transcription := transcription s @ [''AI: '' @ text]\<rparr>)"

definition interrupt :: "LiveServerMessage \<Rightarrow> live_state \<Rightarrow> live_state" where
  \<comment> \<open>\<open>if (message.serverContent?.interrupted) { ... }\<close>\<close>
  "interrupt message s =
     (if interrupted message then (stop_sources s)\<lparr>nextStartTimeRef := 0\<rparr> else s)"

definition schedule :: "live_state \<Rightarrow> AudioBuffer \<Rightarrow> live_state" where
  \<comment> \<open>\<open>createBufferSource\<close>, \<open>source.start(nextStartTimeRef.current)\<close>, the cursor advanced,
      the new source added to the set\<close>
  "schedule s audioBuffer =
     (let source = \<lparr>node_id = nextNode s, buffer = audioBuffer,
                     startTime = nextStartTimeRef s\<rparr>
      in s\<lparr>effects := effects s @ [SourceStart (node_id source) (nextStartTimeRef s)],
           nextStartTimeRef := nextStartTimeRef s + duration audioBuffer,
           sourcesRef := sourcesRef s @ [source],
           nextNode := Suc (nextNode s)\<rparr>)"

definition onmessage ::
  "live_state \<Rightarrow> LiveServerMessage \<Rightarrow> real \<Rightarrow> (js_error \<times> live_state) + live_state" where
  \<comment> \<open>\<open>currentTime\<close> is \<open>ctx.currentTime\<close> of the output context when the message arrives.
      A thrown exception leaves the handler with the state as changed so far.\<close>
  "onmessage s message currentTime =
     (if isStoppingRef s then Inr s
      else
        let s1 = transcribe message s
        in case base64Audio message of
             Inl e \<Rightarrow> Inl (e, s1)
           | Inr None \<Rightarrow> Inr (interrupt message s1)
           | Inr (Some audio) \<Rightarrow>
               if audio = [] then Inr (interrupt message s1)
               else
                 let s2 = s1\<lparr>nextStartTimeRef := max (nextStartTimeRef s1) currentTime\<rparr>
                 in case decode audio of
                      Inl e \<Rightarrow> Inl (e, s2)
                    | Inr bytes \<Rightarrow>
                        (case decodeAudioData bytes 24000 1 of
                           Inl e \<Rightarrow> Inl (e, s2)
                         | Inr audioBuffer \<Rightarrow> Inr (interrupt message (schedule s2 audioBuffer))))"

definition onended :: "live_state \<Rightarrow> source_node \<Rightarrow> live_state" where
  \<comment> \<open>the \<open>ended\<close> listener: \<open>sourcesRef.current.delete(source)\<close>\<close>
  "onended s source = s\<lparr>sourcesRef := filter (\<lambda>n. n \<noteq> source) (sourcesRef s)\<rparr>"

definition onerror :: "live_state \<Rightarrow> string option \<Rightarrow> live_state" where
  "onerror s e = stopSession (if is_auth_error e then s\<lparr>authError := True\<rparr> else s)"

definition onclose :: "live_state \<Rightarrow> live_state" where
  "onclose s = stopSession s"

subsection \<open>The button\<close>

datatype lifecycle = IDLE | CONNECTING | ACTIVE | STOPPING

definition lifecycle_of :: "live_state \<Rightarrow> lifecycle" where
  \<comment> \<open>what the button renders: disabled while connecting, "End Call" while active;
      \<open>STOPPING\<close> is the active rendering with the stop latch already set\<close>
  "lifecycle_of s =
     (if isConnecting s then CONNECTING
      else if isActive s then (if isStoppingRef s then STOPPING else ACTIVE)
      else IDLE)"

definition buttonClick :: "live_state \<Rightarrow> live_state" where
  \<comment> \<open>\<open>onClick={isActive ? stopSession : startSession}\<close>, \<open>disabled={isConnecting}\<close>\<close>
  "buttonClick s =
     (if isConnecting s then s
      else if isActive s then stopSession s
      else startSession s)"

subsection \<open>Messages in sequence\<close>

definition chunk_buffer :: "LiveServerMessage \<Rightarrow> AudioBuffer option" where
  \<comment> \<open>the buffer that the decoding steps of \<open>onmessage\<close> yield for a message, when its
      audio part is present, non-empty and decodes\<close>
  "chunk_buffer message =
     (case base64Audio message of
        Inl e \<Rightarrow> None
      | Inr None \<Rightarrow> None
      | Inr (Some audio) \<Rightarrow>
          if audio = [] then None
          else (case decode audio of
                  Inl e \<Rightarrow> None
                | Inr bytes \<Rightarrow>
                    (case decodeAudioData bytes 24000 1 of
                       Inl e \<Rightarrow> None
                     | Inr audioBuffer \<Rightarrow> Some audioBuffer)))"

definition after_message :: "live_state \<Rightarrow> LiveServerMessage \<Rightarrow> real \<Rightarrow> live_state" where
  \<comment> \<open>the state once the handler has run, whether it returned or threw\<close>
  "after_message s message currentTime =
     (case onmessage s message currentTime of Inl (e, s') \<Rightarrow> s' | Inr s' \<Rightarrow> s')"

fun deliver :: "live_state \<Rightarrow> (LiveServerMessage \<times> real) list \<Rightarrow> live_state" where
  \<comment> \<open>the transport calls the handler once per message, each with the device time of
      its arrival\<close>
  "deliver s [] = s"
| "deliver s ((message, currentTime) # rest) = deliver (after_message s message currentTime) rest"

definition scheduled_since :: "live_state \<Rightarrow> live_state \<Rightarrow> source_node list" where
  \<comment> \<open>the sources added to the active set between \<open>s\<close> and \<open>s'\<close>\<close>
  "scheduled_since s s' = drop (length (sourcesRef s)) (sourcesRef s')"

definition spec_startTimes :: "real \<Rightarrow> real list \<Rightarrow> real list" where
  \<comment> \<open>the start times as the specification words them: the initial offset plus the sum
      of all prior durations\<close>
  "spec_startTimes offset ds = map (\<lambda>i. offset + sum_list (take i ds)) [0..<length ds]"

fun start_times :: "real \<Rightarrow> (real \<times> real) list \<Rightarrow> real list" where
  \<comment> \<open>the cursor arithmetic of \<open>onmessage\<close> on its own, over arrival times and durations\<close>
  "start_times cursor [] = []"
| "start_times cursor ((now, d) # rest) = max cursor now # start_times (max cursor now + d) rest"

fun end_cursor :: "real \<Rightarrow> (real \<times> real) list \<Rightarrow> real" where
  "end_cursor cursor [] = cursor"
| "end_cursor cursor ((now, d) # rest) = end_cursor (max cursor now + d) rest"

subsection \<open>Example runs\<close>

definition first_connecting :: live_state where
  \<comment> \<open>the first click, the microphone granted, the connection still opening\<close>
  "first_connecting = startSession_stream (startSession init_state) 1"

definition one_session :: live_state where
  \<comment> \<open>an active session: stream 1, the connection open, session handle 7\<close>
  "one_session = startSession_session (onopen first_connecting 0) 0 7"

definition restart_pending :: live_state where
  \<comment> \<open>that session stopped and a second one started, its connection still opening\<close>
  "restart_pending = startSession_stream (startSession (stopSession one_session)) 2"

definition silence3 :: LiveServerMessage where
  \<comment> \<open>a chunk of three silent samples (six zero bytes)\<close>
  "silence3 =
     \<lparr>outputTranscription = None,
      modelTurn = Some (ModelTurn (Some [Some ''AAAAAAAA''])), interrupted = False\<rparr>"

definition silent_buffer3 :: AudioBuffer where
  "silent_buffer3 = \<lparr>numberOfChannels = 1, buf_length = 3, sampleRate = 24000,
        channelData = [[0, 0, 0]]\<rparr>"

definition odd_payload :: LiveServerMessage where
  \<comment> \<open>a payload of three bytes: not a whole number of 16-bit samples\<close>
  "odd_payload =
     \<lparr>outputTranscription = None,
      modelTurn = Some (ModelTurn (Some [Some ''AAAA''])), interrupted = False\<rparr>"

definition interruption :: LiveServerMessage where
  "interruption = \<lparr>outputTranscription = None, modelTurn = None, interrupted = True\<rparr>"

definition interrupted_odd_payload :: LiveServerMessage where
  \<comment> \<open>the interruption flag together with a payload of three bytes\<close>
  "interrupted_odd_payload =
     \<lparr>outputTranscription = None,
      modelTurn = Some (ModelTurn (Some [Some ''AAAA''])), interrupted = True\<rparr>"

definition interrupted_no_parts :: LiveServerMessage where
  \<comment> \<open>the interruption flag together with a model turn that has no parts\<close>
  "interrupted_no_parts =
     \<lparr>outputTranscription = None, modelTurn = Some (ModelTurn None), interrupted = True\<rparr>"



definition playing :: live_state where
  \<comment> \<open>the active session with one chunk scheduled at device time 1\<close>
  "playing = after_message one_session silence3 1"

section \<open>Evaluation lemmas\<close>

lemma replicate_two: "replicate 2 x = [x, x]"
  by (simp add: numeral_2_eq_2)

lemmas codec_defs = decode_def atob_def is_ascii_whitespace_def strip_padding_def b64chars_def
  encode_def btoa_def decodeAudioData_def Int16Array_of_buffer_def createBuffer_def
  encodeFrame_def pcm_int16_def ToInt16_def js_trunc_def Uint8Array_of_Int16Array_def
  int16_bytes_def replicate_two

lemmas handler_defs = init_state_def startSession_def startSession_stream_def
  startSession_session_def startSession_catch_def sessionPromise_rejected_def onopen_def
  sendFrame_def stopSession_def stop_sources_def session_ended_def onerror_def onclose_def
  buttonClick_def lifecycle_of_def onaudioprocess_def

lemma first_connecting_eq:
  "first_connecting =
     \<lparr>isActive = False, transcription = [], isConnecting = True, authError = False,
      sessionRef = None, nextStartTimeRef = 0, sourcesRef = [], isStoppingRef = False,
      calls = [\<lparr>sessionPromise = Pending, thenQueue = []\<rparr>],
      effects = [GetUserMedia, LiveConnect], liveStreams = [1], nextNode = 0\<rparr>"
  by (simp add: first_connecting_def handler_defs)

lemma one_session_eq:
  "one_session =
     \<lparr>isActive = True, transcription = [''[Connection Established]''],
      isConnecting = False, authError = False, sessionRef = Some 7,
      nextStartTimeRef = 0, sourcesRef = [], isStoppingRef = False,
      calls = [\<lparr>sessionPromise = Fulfilled 7, thenQueue = []\<rparr>],
      effects = [GetUserMedia, LiveConnect, CaptureConnect 0],
      liveStreams = [1], nextNode = 0\<rparr>"
  by (simp add: one_session_def first_connecting_eq handler_defs)

lemma restart_pending_eq:
  "restart_pending =
     \<lparr>isActive = False,
      transcription = [''[Connection Established]'', ''[Session Ended]''],
      isConnecting = True, authError = False, sessionRef = None,
      nextStartTimeRef = 0, sourcesRef = [], isStoppingRef = False,
      calls = [\<lparr>sessionPromise = Fulfilled 7, thenQueue = []\<rparr>,
               \<lparr>sessionPromise = Pending, thenQueue = []\<rparr>],
      effects = [GetUserMedia, LiveConnect, CaptureConnect 0, SessionClose 7,
                 GetUserMedia, LiveConnect],
      liveStreams = [1, 2], nextNode = 0\<rparr>"
  by (simp add: restart_pending_def one_session_eq handler_defs)

section \<open>The stop latch\<close>

lemma stopSession_latched: "isStoppingRef s \<Longrightarrow> stopSession s = s"
  by (simp add: stopSession_def)

lemma stopSession_sets_latch: "isStoppingRef (stopSession s)"
  by (simp add: stopSession_def stop_sources_def Let_def split: option.splits)

lemma stopSession_idem: "stopSession (stopSession s) = stopSession s"
  by (simp add: stopSession_latched stopSession_sets_latch)

lemma stopSession_funpow: "(stopSession ^^ Suc n) s = stopSession s"
  by (induction n) (simp_all add: stopSession_idem)

lemma stopSession_first:
  "\<not> isStoppingRef s \<Longrightarrow>
     stopSession s =
       s\<lparr>isStoppingRef := True, isActive := False, sessionRef := None,
         transcription :=
           (if transcription s \<noteq> [] \<and> last (transcription s) = session_ended
            then transcription s else transcription s @ [session_ended]),
         effects := effects s @ (case sessionRef s of None \<Rightarrow> [] | Some h \<Rightarrow> [SessionClose h])
                      @ map (\<lambda>n. SourceStop (node_id n)) (sourcesRef s),
         sourcesRef := []\<rparr>"
  by (cases "sessionRef s")
     (auto simp add: stopSession_def stop_sources_def Let_def last_conv_nth)


text \<open>
  Claim C3, as amended. Calling \<open>stopSession\<close> \<open>N \<ge> 1\<close> times in a row has exactly the
  effect of calling it once: once the latch is set a call changes nothing. The first call
  (latch clear) appends one \<open>[Session Ended]\<close> entry unless the log's most recent entry
  is already that marker, in which case it appends none; it calls \<open>close\<close> once on the
  session handle if one is held, calls \<open>stop\<close> once on every source of the active set in
  order, and leaves the set empty and the handle cleared.
\<close>

theorem stop_repeated:
  "1 \<le> N \<Longrightarrow>
     (stopSession ^^ N) s = stopSession s \<and>
     (isStoppingRef s \<longrightarrow> stopSession s = s) \<and>
     (\<not> isStoppingRef s \<longrightarrow>
        transcription (stopSession s) =
          (if transcription s \<noteq> [] \<and> last (transcription s) = session_ended
           then transcription s else transcription s @ [session_ended]) \<and>
        effects (stopSession s) =
          effects s @ (case sessionRef s of None \<Rightarrow> [] | Some h \<Rightarrow> [SessionClose h])
            @ map (\<lambda>n. SourceStop (node_id n)) (sourcesRef s) \<and>
        sourcesRef (stopSession s) = [] \<and> sessionRef (stopSession s) = None \<and>
        isStoppingRef (stopSession s))"
proof -
  assume "1 \<le> N"
  then obtain n where N: "N = Suc n" by (cases N) auto
  have rep: "(stopSession ^^ N) s = stopSession s"
    unfolding N by (rule stopSession_funpow)
  show ?thesis
    using rep by (simp add: stopSession_latched stopSession_first)
qed

theorem stop_repeated_witness:
  "(stopSession ^^ 3) one_session = stopSession one_session \<and>
   transcription ((stopSession ^^ 3) one_session) =
     [''[Connection Established]'', ''[Session Ended]''] \<and>
   effects ((stopSession ^^ 3) one_session) =
     [GetUserMedia, LiveConnect, CaptureConnect 0, SessionClose 7]"
  using stop_repeated [of 3 one_session]
  by (simp add: one_session_eq session_ended_def)

text \<open>
  Claim C3 as stated fails: in a second session whose connection has not opened, the log
  still ends with the first session's marker, and two calls of \<open>stopSession\<close> append
  nothing and close nothing.
\<close>

theorem stop_marker_suppressed:
  "\<not> isStoppingRef restart_pending \<and>
   transcription ((stopSession ^^ 2) restart_pending) = transcription restart_pending \<and>
   transcription ((stopSession ^^ 2) restart_pending)
     \<noteq> transcription restart_pending @ [session_ended] \<and>
   effects ((stopSession ^^ 2) restart_pending) = effects restart_pending"
  by (simp add: restart_pending_eq numeral_2_eq_2 stopSession_def stop_sources_def
        session_ended_def)

section \<open>Capture frames after a stop\<close>

lemma sendFrame_calls [simp]: "calls (sendFrame t session data) = calls t"
  by (simp add: sendFrame_def)







section \<open>The microphone\<close>

text \<open>
  Claim C6, as amended. \<open>stopSession\<close> does not release the microphone: on every teardown
  path (the button, \<open>onerror\<close>, \<open>onclose\<close>, the \<open>catch\<close> block of \<open>startSession\<close>) the
  streams acquired by \<open>getUserMedia\<close> stay live. The teardown closes the session and
  stops and clears the scheduled sources only.
\<close>

theorem stop_keeps_microphone:
  "liveStreams (stopSession s) = liveStreams s \<and>
   liveStreams (onerror s e) = liveStreams s \<and>
   liveStreams (onclose s) = liveStreams s \<and>
   liveStreams (startSession_catch s e) = liveStreams s"
  by (simp add: stopSession_def stop_sources_def onerror_def onclose_def startSession_catch_def
       Let_def split: option.splits)

text \<open>
  Claim C6 as stated fails: the stream acquired at the start of the session is still
  held after \<open>stopSession\<close>.
\<close>

theorem microphone_held_after_stop:
  "liveStreams one_session = [1] \<and> 1 \<in> set (liveStreams (stopSession one_session))"
  by (simp add: one_session_eq stopSession_def stop_sources_def)

section \<open>Starting only from idle\<close>

text \<open>
  Claim C7, as amended. \<open>startSession\<close> itself is not guarded: called in any state, it
  clears the overlay flag and the latch, sets the connecting flag and requests the
  microphone. The guard is the button, its only caller: idle, a click is \<open>startSession\<close>;
  while connecting the button is disabled and a click changes nothing; while active a
  click is \<open>stopSession\<close> (which, while stopping, the latch makes a no-op). So in every
  lifecycle state other than \<open>IDLE\<close> a click requests no microphone, opens no connection
  and leaves the live streams and the session promises as they are.
\<close>

theorem start_guarded_by_button:
  "effects (startSession s) = effects s @ [GetUserMedia] \<and>
   isConnecting (startSession s) \<and> \<not> isStoppingRef (startSession s) \<and>
   \<not> authError (startSession s) \<and>
   buttonClick s =
     (case lifecycle_of s of
        IDLE \<Rightarrow> startSession s
      | CONNECTING \<Rightarrow> s
      | ACTIVE \<Rightarrow> stopSession s
      | STOPPING \<Rightarrow> s) \<and>
   (lifecycle_of s \<noteq> IDLE \<longrightarrow>
      filter (\<lambda>e. e = GetUserMedia \<or> e = LiveConnect) (effects (buttonClick s)) =
        filter (\<lambda>e. e = GetUserMedia \<or> e = LiveConnect) (effects s) \<and>
      liveStreams (buttonClick s) = liveStreams s \<and>
      calls (buttonClick s) = calls s)"
  by (auto simp add: lifecycle_of_def buttonClick_def startSession_def stopSession_def
        stop_sources_def Let_def split: if_splits option.splits)

theorem start_guarded_by_button_witness:
  "lifecycle_of one_session = ACTIVE \<and>
   buttonClick one_session = stopSession one_session \<and>
   effects (buttonClick one_session) =
     [GetUserMedia, LiveConnect, CaptureConnect 0, SessionClose 7] \<and>
   liveStreams (buttonClick one_session) = [1] \<and>
   lifecycle_of restart_pending = CONNECTING \<and>
   buttonClick restart_pending = restart_pending \<and>
   lifecycle_of init_state = IDLE \<and>
   effects (buttonClick init_state) = [GetUserMedia]"
  using start_guarded_by_button [of one_session] start_guarded_by_button [of restart_pending]
    start_guarded_by_button [of init_state]
  by (simp add: one_session_eq restart_pending_eq init_state_def lifecycle_of_def
        stopSession_def stop_sources_def)

text \<open>
  Claim C7 as stated fails: \<open>startSession\<close> run on an active session is not rejected; it
  requests the microphone, and with the stream granted a second stream is live and a
  second connection is opened.
\<close>

theorem start_unguarded_when_active:
  "lifecycle_of one_session = ACTIVE \<and>
   effects (startSession one_session) =
     [GetUserMedia, LiveConnect, CaptureConnect 0, GetUserMedia] \<and>
   effects (startSession_stream (startSession one_session) 2) =
     [GetUserMedia, LiveConnect, CaptureConnect 0, GetUserMedia, LiveConnect] \<and>
   liveStreams (startSession_stream (startSession one_session) 2) = [1, 2]"
  by (simp add: one_session_eq lifecycle_of_def startSession_def startSession_stream_def)

section \<open>Authorization failures\<close>

text \<open>
  Claim C8, as amended. An authorization failure (a message containing \<open>403\<close> or, in
  any case, \<open>permission\<close>) delivered through the error callback sets the overlay flag
  and runs \<open>stopSession\<close>. One thrown while starting (\<open>getUserMedia\<close> or the connection
  promise rejecting) sets the overlay flag and clears the connecting state, and does not
  run \<open>stopSession\<close>: the latch, the log and the calls made stay as they were.
\<close>

theorem auth_failure_handling:
  "is_auth_error e \<Longrightarrow>
     onerror s e = stopSession (s\<lparr>authError := True\<rparr>) \<and>
     authError (onerror s e) \<and> isStoppingRef (onerror s e) \<and>
     startSession_catch s e = s\<lparr>authError := True, isConnecting := False\<rparr> \<and>
     isStoppingRef (startSession_catch s e) = isStoppingRef s \<and>
     transcription (startSession_catch s e) = transcription s \<and>
     effects (startSession_catch s e) = effects s"
  by (simp add: onerror_def startSession_catch_def stopSession_sets_latch)
     (simp add: stopSession_def stop_sources_def Let_def split: option.splits)

theorem auth_failure_handling_witness:
  "is_auth_error (Some ''Permission denied'') \<and>
   authError (onerror one_session (Some ''Permission denied'')) \<and>
   isStoppingRef (onerror one_session (Some ''Permission denied'')) \<and>
   \<not> isStoppingRef (startSession_catch first_connecting (Some ''Permission denied''))"
proof -
  have a: "is_auth_error (Some ''Permission denied'')"
    by code_simp
  show ?thesis
    using a auth_failure_handling [OF a, of one_session]
      auth_failure_handling [OF a, of first_connecting]
    by (simp add: first_connecting_def handler_defs)
qed

text \<open>
  Claim C8 as stated fails: when the connection promise rejects with a 403, the flag is
  set but \<open>stopSession\<close> has not run (the latch is clear and the log has no end marker).
\<close>

theorem open_failure_without_stop:
  "is_auth_error (Some ''403 Forbidden'') \<and>
   authError (sessionPromise_rejected first_connecting 0 (Some ''403 Forbidden'')) \<and>
   \<not> isStoppingRef (sessionPromise_rejected first_connecting 0 (Some ''403 Forbidden'')) \<and>
   transcription (sessionPromise_rejected first_connecting 0 (Some ''403 Forbidden'')) = [] \<and>
   sessionPromise_rejected first_connecting 0 (Some ''403 Forbidden'')
     \<noteq> stopSession (first_connecting\<lparr>authError := True\<rparr>)"
  by (simp add: first_connecting_eq handler_defs is_auth_error_def)

section \<open>A start begins with clean guards\<close>

text \<open>
  Claim C10. From any state, \<open>startSession\<close> clears the overlay flag and the stop latch
  in the stretch that ends with the microphone request (its only call; no stream is
  acquired and no connection opened before); and once that session is connected, a
  capture frame is sent, whatever the latch was before the start.
\<close>

theorem start_clears_guards:
  "authError (startSession s) = False \<and> isStoppingRef (startSession s) = False \<and>
   effects (startSession s) = effects s @ [GetUserMedia] \<and>
   liveStreams (startSession s) = liveStreams s \<and>
   isStoppingRef
     (startSession_session
        (onopen (startSession_stream (startSession s) stream) (length (calls s)))
        (length (calls s)) session)
       = False \<and>
   effects (onaudioprocess
      (startSession_session
         (onopen (startSession_stream (startSession s) stream) (length (calls s)))
         (length (calls s)) session)
      (length (calls s)) inputData) =
     effects s @ [GetUserMedia, LiveConnect, CaptureConnect (length (calls s)),
                  SendRealtimeInput session (encodeFrame inputData)]"
  by (simp add: startSession_def startSession_stream_def onopen_def startSession_session_def
        onaudioprocess_def sendFrame_def Let_def nth_append)

section \<open>The playback scheduler\<close>

lemma transcribe_fields [simp]:
  "nextStartTimeRef (transcribe m s) = nextStartTimeRef s"
  "isStoppingRef (transcribe m s) = isStoppingRef s"
  "sourcesRef (transcribe m s) = sourcesRef s"
  "effects (transcribe m s) = effects s"
  "sessionRef (transcribe m s) = sessionRef s"
  "isActive (transcribe m s) = isActive s"
  "nextNode (transcribe m s) = nextNode s"
  by (simp_all add: transcribe_def split: option.splits)

lemma onmessage_chunk:
  "\<not> isStoppingRef s \<Longrightarrow> chunk_buffer m = Some buf \<Longrightarrow>
     onmessage s m now =
       Inr (interrupt m (schedule ((transcribe m s)\<lparr>nextStartTimeRef := max (nextStartTimeRef s) now\<rparr>) buf))"
  by (auto simp add: onmessage_def chunk_buffer_def Let_def split: option.splits sum.splits if_splits)

lemma onmessage_no_audio:
  "\<not> isStoppingRef s \<Longrightarrow> base64Audio m = Inr None \<or> base64Audio m = Inr (Some []) \<Longrightarrow>
     onmessage s m now = Inr (interrupt m (transcribe m s))"
  by (auto simp add: onmessage_def Let_def)

lemma onmessage_malformed:
  "\<not> isStoppingRef s \<Longrightarrow> base64Audio m = Inr (Some b) \<Longrightarrow> b \<noteq> [] \<Longrightarrow> chunk_buffer m = None \<Longrightarrow>
     \<exists>e. onmessage s m now =
       Inl (e, (transcribe m s)\<lparr>nextStartTimeRef := max (nextStartTimeRef s) now\<rparr>)"
  by (auto simp add: onmessage_def chunk_buffer_def Let_def split: option.splits sum.splits if_splits)

lemma after_chunk:
  "\<not> isStoppingRef s \<Longrightarrow> \<not> interrupted m \<Longrightarrow> chunk_buffer m = Some buf \<Longrightarrow>
     after_message s m now =
       schedule ((transcribe m s)\<lparr>nextStartTimeRef := max (nextStartTimeRef s) now\<rparr>) buf"
  by (simp add: after_message_def onmessage_chunk interrupt_def)

lemma deliver_chunks:
  "\<not> isStoppingRef s \<Longrightarrow>
   \<forall>(m, t) \<in> set ms. \<not> interrupted m \<and> chunk_buffer m \<noteq> None \<Longrightarrow>
   \<exists>new. sourcesRef (deliver s ms) = sourcesRef s @ new \<and>
     map startTime new =
       start_times (nextStartTimeRef s) (map (\<lambda>(m, t). (t, duration (the (chunk_buffer m)))) ms) \<and>
     map buffer new = map (\<lambda>(m, t). the (chunk_buffer m)) ms \<and>
     nextStartTimeRef (deliver s ms) =
       end_cursor (nextStartTimeRef s) (map (\<lambda>(m, t). (t, duration (the (chunk_buffer m)))) ms) \<and>
     \<not> isStoppingRef (deliver s ms)"
proof (induction ms arbitrary: s)
  case Nil
  then show ?case by simp
next
  case (Cons x ms)
  obtain m t where x: "x = (m, t)" by (cases x)
  from Cons.prems x obtain buf where buf: "chunk_buffer m = Some buf" and ni: "\<not> interrupted m"
    by auto
  let ?s1 = "after_message s m t"
  have s1: "?s1 = schedule ((transcribe m s)\<lparr>nextStartTimeRef := max (nextStartTimeRef s) t\<rparr>) buf"
    using Cons.prems(1) ni buf by (rule after_chunk)
  have latch: "\<not> isStoppingRef ?s1"
    using Cons.prems(1) by (simp add: s1 schedule_def Let_def)
  have rest: "\<forall>(m, t) \<in> set ms. \<not> interrupted m \<and> chunk_buffer m \<noteq> None"
    using Cons.prems(2) by simp
  from Cons.IH [OF latch rest] obtain new where
    new: "sourcesRef (deliver ?s1 ms) = sourcesRef ?s1 @ new"
      "map startTime new =
         start_times (nextStartTimeRef ?s1) (map (\<lambda>(m, t). (t, duration (the (chunk_buffer m)))) ms)"
      "map buffer new = map (\<lambda>(m, t). the (chunk_buffer m)) ms"
      "nextStartTimeRef (deliver ?s1 ms) =
         end_cursor (nextStartTimeRef ?s1) (map (\<lambda>(m, t). (t, duration (the (chunk_buffer m)))) ms)"
      "\<not> isStoppingRef (deliver ?s1 ms)"
    by blast
  let ?n = "\<lparr>node_id = nextNode s, buffer = buf, startTime = max (nextStartTimeRef s) t\<rparr>"
  have src: "sourcesRef ?s1 = sourcesRef s @ [?n]"
    and cur: "nextStartTimeRef ?s1 = max (nextStartTimeRef s) t + duration buf"
    by (simp_all add: s1 schedule_def Let_def)
  show ?case
    apply (rule exI [of _ "?n # new"])
    using new buf by (simp add: x src cur)
qed

lemma start_times_length [simp]: "length (start_times c xs) = length xs"
  by (induction c xs rule: start_times.induct) simp_all

lemma start_times_first: "xs \<noteq> [] \<Longrightarrow> start_times c xs ! 0 = max c (fst (xs ! 0))"
  by (cases xs) auto

lemma start_times_step:
  "Suc i < length xs \<Longrightarrow>
     start_times c xs ! Suc i = max (start_times c xs ! i + snd (xs ! i)) (fst (xs ! Suc i))"
proof (induction c xs arbitrary: i rule: start_times.induct)
  case (1 cursor)
  then show ?case by simp
next
  case (2 cursor now d rest)
  show ?case
  proof (cases i)
    case 0
    with 2 have "rest \<noteq> []" by auto
    then show ?thesis using 0 by (simp add: start_times_first)
  next
    case (Suc k)
    with 2 show ?thesis by simp
  qed
qed

lemma start_times_mono:
  assumes "\<forall>x \<in> set xs. 0 \<le> snd x" and "j < length xs" and "i < j"
  shows "start_times c xs ! i + snd (xs ! i) \<le> start_times c xs ! j"
  using assms(2,3)
proof (induction j)
  case 0
  then show ?case by simp
next
  case (Suc j)
  have step: "start_times c xs ! j + snd (xs ! j) \<le> start_times c xs ! Suc j"
    using Suc.prems(1) by (simp add: start_times_step)
  show ?case
  proof (cases "i = j")
    case True
    then show ?thesis using step by simp
  next
    case False
    then have "i < j" using Suc.prems(2) by simp
    moreover have "j < length xs" using Suc.prems(1) by simp
    ultimately have "start_times c xs ! i + snd (xs ! i) \<le> start_times c xs ! j"
      by (rule Suc.IH [rotated])
    moreover have "0 \<le> snd (xs ! j)"
      using assms(1) \<open>j < length xs\<close> by simp
    ultimately show ?thesis using step by linarith
  qed
qed

lemma start_times_lower:
  "i < length xs \<Longrightarrow>
     start_times c xs ! 0 + sum_list (take i (map snd xs)) \<le> start_times c xs ! i"
proof (induction i)
  case 0
  then show ?case by simp
next
  case (Suc i)
  then have "start_times c xs ! i + snd (xs ! i) \<le> start_times c xs ! Suc i"
    by (simp add: start_times_step)
  moreover have "sum_list (take (Suc i) (map snd xs)) = sum_list (take i (map snd xs)) + snd (xs ! i)"
    using Suc.prems by (simp add: take_Suc_conv_app_nth)
  ultimately show ?case using Suc by simp
qed

lemma start_times_exact:
  assumes "\<forall>i. Suc i < length xs \<longrightarrow> fst (xs ! Suc i) \<le> start_times c xs ! i + snd (xs ! i)"
  shows "i < length xs \<Longrightarrow>
     start_times c xs ! i = start_times c xs ! 0 + sum_list (take i (map snd xs))"
proof (induction i)
  case 0
  then show ?case by simp
next
  case (Suc i)
  have "fst (xs ! Suc i) \<le> start_times c xs ! i + snd (xs ! i)"
    using assms Suc.prems by blast
  then have "start_times c xs ! Suc i = start_times c xs ! i + snd (xs ! i)"
    using Suc.prems by (simp add: start_times_step)
  moreover have "sum_list (take (Suc i) (map snd xs)) = sum_list (take i (map snd xs)) + snd (xs ! i)"
    using Suc.prems by (simp add: take_Suc_conv_app_nth)
  ultimately show ?case using Suc by simp
qed

lemma chunk_buffer_duration: "chunk_buffer m = Some buf \<Longrightarrow> 0 < duration buf"
  by (auto simp add: chunk_buffer_def decodeAudioData_def createBuffer_def duration_def
        split: option.splits sum.splits if_splits)

lemma end_cursor_last:
  "end_cursor c xs = (if xs = [] then c else last (start_times c xs) + snd (last xs))"
  by (induction c xs rule: start_times.induct) (auto simp add: neq_Nil_conv)

lemma spec_startTimes_nth:
  "i < length ds \<Longrightarrow> spec_startTimes offset ds ! i = offset + sum_list (take i ds)"
  by (simp add: spec_startTimes_def)

text \<open>
  Claim C1, as amended. Chunks delivered in sequence with no interruption signal, each
  decodable, are scheduled one source per chunk, in order. The i-th source starts at
  the maximum of the cursor and the device time of its arrival, where the cursor is the
  previous source's start plus its duration (the cursor of the state before, for the first
  chunk). Hence its start is at least the first start plus the sum of all prior
  durations, with equality when no chunk arrives after the end of the one before it; no
  two playback intervals overlap; and the cursor ends at the end of the last source.
\<close>

theorem playback_schedule:
  "\<not> isStoppingRef s \<Longrightarrow>
   \<forall>(m, t) \<in> set ms. \<not> interrupted m \<and> chunk_buffer m \<noteq> None \<Longrightarrow>
   new = scheduled_since s (deliver s ms) \<Longrightarrow>
     sourcesRef (deliver s ms) = sourcesRef s @ new \<and> length new = length ms \<and>
     (\<forall>i<length ms.
        buffer (new ! i) = the (chunk_buffer (fst (ms ! i))) \<and>
        startTime (new ! i) =
          max (if i = 0 then nextStartTimeRef s
               else startTime (new ! (i - 1)) + duration (buffer (new ! (i - 1))))
              (snd (ms ! i)) \<and>
        startTime (new ! 0) + sum_list (take i (map (\<lambda>n. duration (buffer n)) new))
          \<le> startTime (new ! i)) \<and>
     ((\<forall>i. Suc i < length ms \<longrightarrow>
          snd (ms ! Suc i) \<le> startTime (new ! i) + duration (buffer (new ! i))) \<longrightarrow>
        map startTime new =
          spec_startTimes (startTime (new ! 0)) (map (\<lambda>n. duration (buffer n)) new)) \<and>
     (\<forall>i j. i < j \<and> j < length ms \<longrightarrow>
        startTime (new ! i) + duration (buffer (new ! i)) \<le> startTime (new ! j)) \<and>
     nextStartTimeRef (deliver s ms) =
       (if ms = [] then nextStartTimeRef s
        else startTime (last new) + duration (buffer (last new)))"
proof -
  assume latch: "\<not> isStoppingRef s"
    and chunks: "\<forall>(m, t) \<in> set ms. \<not> interrupted m \<and> chunk_buffer m \<noteq> None"
    and new_def: "new = scheduled_since s (deliver s ms)"
  define xs where "xs = map (\<lambda>(m, t). (t, duration (the (chunk_buffer m)))) ms"
  define c where "c = nextStartTimeRef s"
  from deliver_chunks [OF latch chunks] obtain new' where
    src': "sourcesRef (deliver s ms) = sourcesRef s @ new'"
    and st': "map startTime new' = start_times c xs"
    and bf': "map buffer new' = map (\<lambda>(m, t). the (chunk_buffer m)) ms"
    and cur: "nextStartTimeRef (deliver s ms) = end_cursor c xs"
    unfolding xs_def c_def by blast
  have "new = new'"
    by (simp add: new_def scheduled_since_def src')
  with src' st' bf' have src: "sourcesRef (deliver s ms) = sourcesRef s @ new"
    and st: "map startTime new = start_times c xs"
    and bf: "map buffer new = map (\<lambda>(m, t). the (chunk_buffer m)) ms"
    by simp_all
  have len: "length new = length ms"
    using bf by (metis length_map)
  have lenx: "length xs = length ms"
    by (simp add: xs_def)
  have sti: "startTime (new ! i) = start_times c xs ! i" if "i < length ms" for i
    using st that len by (metis nth_map)
  have bfi: "buffer (new ! i) = the (chunk_buffer (fst (ms ! i)))" if "i < length ms" for i
  proof -
    have "buffer (new ! i) = map buffer new ! i"
      using that len by simp
    also have "\<dots> = the (chunk_buffer (fst (ms ! i)))"
      using that by (simp add: bf case_prod_unfold)
    finally show ?thesis .
  qed
  have fsti: "fst (xs ! i) = snd (ms ! i)" if "i < length ms" for i
    using that by (simp add: xs_def case_prod_unfold)
  have sndi: "snd (xs ! i) = duration (buffer (new ! i))" if "i < length ms" for i
    using that by (simp add: xs_def case_prod_unfold bfi)
  have durs: "map (\<lambda>n. duration (buffer n)) new = map snd xs"
    by (rule nth_equalityI) (simp_all add: len lenx sndi)
  have nonneg: "\<forall>x \<in> set xs. 0 \<le> snd x"
  proof
    fix x assume "x \<in> set xs"
    then obtain m t where mt: "(m, t) \<in> set ms" and x: "x = (t, duration (the (chunk_buffer m)))"
      by (auto simp add: xs_def)
    from chunks mt obtain buf where "chunk_buffer m = Some buf" by auto
    then show "0 \<le> snd x"
      using chunk_buffer_duration [of m buf] by (simp add: x)
  qed
  have each: "buffer (new ! i) = the (chunk_buffer (fst (ms ! i))) \<and>
        startTime (new ! i) =
          max (if i = 0 then nextStartTimeRef s
               else startTime (new ! (i - 1)) + duration (buffer (new ! (i - 1))))
              (snd (ms ! i)) \<and>
        startTime (new ! 0) + sum_list (take i (map (\<lambda>n. duration (buffer n)) new))
          \<le> startTime (new ! i)" if i: "i < length ms" for i
  proof -
    have a: "startTime (new ! i) =
          max (if i = 0 then nextStartTimeRef s
               else startTime (new ! (i - 1)) + duration (buffer (new ! (i - 1))))
              (snd (ms ! i))"
    proof (cases i)
      case 0
      have "xs \<noteq> []" using i lenx by auto
      then show ?thesis
        using 0 i by (simp add: sti start_times_first fsti c_def)
    next
      case (Suc k)
      then have k: "k < length ms" and sk: "Suc k < length xs" using i lenx by simp_all
      show ?thesis
        using start_times_step [OF sk, of c] i k
        by (simp add: Suc sti sndi fsti)
    qed
    have b: "startTime (new ! 0) + sum_list (take i (map (\<lambda>n. duration (buffer n)) new))
          \<le> startTime (new ! i)"
    proof -
      have "0 < length ms" using i by linarith
      then have z: "startTime (new ! 0) = start_times c xs ! 0" by (rule sti)
      show ?thesis
        using start_times_lower [of i xs c] i by (simp add: durs sti [OF i] z lenx)
    qed
    show ?thesis using a b bfi [OF i] by simp
  qed
  have exact: "map startTime new =
          spec_startTimes (startTime (new ! 0)) (map (\<lambda>n. duration (buffer n)) new)"
    if ontime: "\<forall>i. Suc i < length ms \<longrightarrow>
          snd (ms ! Suc i) \<le> startTime (new ! i) + duration (buffer (new ! i))"
  proof (rule nth_equalityI)
    show "length (map startTime new) =
        length (spec_startTimes (startTime (new ! 0)) (map (\<lambda>n. duration (buffer n)) new))"
      by (simp add: spec_startTimes_def)
  next
    fix i assume "i < length (map startTime new)"
    then have i: "i < length ms" using len by simp
    have pre: "\<forall>i. Suc i < length xs \<longrightarrow> fst (xs ! Suc i) \<le> start_times c xs ! i + snd (xs ! i)"
    proof (intro allI impI)
      fix k assume "Suc k < length xs"
      then have "Suc k < length ms" and "k < length ms" using lenx by simp_all
      then show "fst (xs ! Suc k) \<le> start_times c xs ! k + snd (xs ! k)"
        using ontime by (simp add: fsti sti sndi)
    qed
    have "0 < length ms" using i by linarith
    then have z: "startTime (new ! 0) = start_times c xs ! 0" by (rule sti)
    have "startTime (new ! i) = startTime (new ! 0) + sum_list (take i (map snd xs))"
      using start_times_exact [OF pre, of i] i by (simp add: sti [OF i] z lenx)
    then show "map startTime new ! i =
        spec_startTimes (startTime (new ! 0)) (map (\<lambda>n. duration (buffer n)) new) ! i"
      using i len by (simp add: spec_startTimes_nth durs lenx)
  qed
  have apart: "startTime (new ! i) + duration (buffer (new ! i)) \<le> startTime (new ! j)"
    if "i < j" "j < length ms" for i j
  proof -
    have "i < length ms" using that by simp
    then show ?thesis
      using start_times_mono [OF nonneg, of j i c] that by (simp add: sti sndi lenx)
  qed
  have final: "nextStartTimeRef (deliver s ms) =
       (if ms = [] then nextStartTimeRef s
        else startTime (last new) + duration (buffer (last new)))"
  proof (cases "ms = []")
    case True
    then show ?thesis by (simp add: cur xs_def c_def)
  next
    case False
    then have ne: "xs \<noteq> []" "new \<noteq> []" using lenx len by auto
    have l: "length ms - 1 < length ms" using False by simp
    have "start_times c xs \<noteq> []"
      using ne by (metis start_times_length length_0_conv)
    then have "last (start_times c xs) = start_times c xs ! (length ms - 1)"
      by (simp add: last_conv_nth lenx)
    then have "last (start_times c xs) = startTime (last new)"
      using ne l by (simp add: last_conv_nth sti len)
    moreover have "snd (last xs) = duration (buffer (last new))"
      using ne l by (simp add: last_conv_nth sndi lenx len)
    ultimately show ?thesis
      using False ne by (simp add: cur end_cursor_last)
  qed
  show ?thesis
    using src len each exact apart final by blast
qed

lemma chunk_buffer_silence3: "chunk_buffer silence3 = Some silent_buffer3"
  by (simp add: silence3_def silent_buffer3_def chunk_buffer_def base64Audio_def codec_defs
        upt_conv_Cons)

lemma silence3_fields [simp]:
  "interrupted silence3 = False" "outputTranscription silence3 = None"
  by (simp_all add: silence3_def)

lemma duration_silent_buffer3 [simp]: "duration silent_buffer3 = 1 / 8000"
  by (simp add: duration_def silent_buffer3_def)

lemma chunk_buffer_odd_payload: "chunk_buffer odd_payload = None"
  by (simp add: odd_payload_def chunk_buffer_def base64Audio_def codec_defs)

lemma after_silence3:
  "\<not> isStoppingRef s \<Longrightarrow>
     after_message s silence3 now =
       s\<lparr>effects := effects s @ [SourceStart (nextNode s) (max (nextStartTimeRef s) now)],
          nextStartTimeRef := max (nextStartTimeRef s) now + 1 / 8000,
          sourcesRef := sourcesRef s @
            [\<lparr>node_id = nextNode s, buffer = silent_buffer3,
              startTime = max (nextStartTimeRef s) now\<rparr>],
          nextNode := Suc (nextNode s)\<rparr>"
  by (simp add: after_chunk [OF _ _ chunk_buffer_silence3] schedule_def transcribe_def Let_def)

lemma playing_eq:
  "playing =
     \<lparr>isActive = True, transcription = [''[Connection Established]''],
      isConnecting = False, authError = False, sessionRef = Some 7,
      nextStartTimeRef = 8001 / 8000,
      sourcesRef = [\<lparr>node_id = 0, buffer = silent_buffer3, startTime = 1\<rparr>],
      isStoppingRef = False,
      calls = [\<lparr>sessionPromise = Fulfilled 7, thenQueue = []\<rparr>],
      effects = [GetUserMedia, LiveConnect, CaptureConnect 0, SourceStart 0 1],
      liveStreams = [1], nextNode = 1\<rparr>"
  by (simp add: playing_def after_silence3 one_session_eq)

theorem playback_schedule_witness:
  "\<not> isStoppingRef one_session \<and> \<not> interrupted silence3 \<and> chunk_buffer silence3 \<noteq> None \<and>
   map startTime (scheduled_since one_session
      (deliver one_session [(silence3, 1), (silence3, 1), (silence3, 1)])) =
     [1, 8001 / 8000, 8002 / 8000] \<and>
   map startTime (scheduled_since one_session
      (deliver one_session [(silence3, 1), (silence3, 1), (silence3, 1)])) =
     spec_startTimes 1 [1 / 8000, 1 / 8000, 1 / 8000] \<and>
   nextStartTimeRef (deliver one_session [(silence3, 1), (silence3, 1), (silence3, 1)]) =
     8003 / 8000"
  using playback_schedule [of one_session "[(silence3, 1), (silence3, 1), (silence3, 1)]"
      "scheduled_since one_session (deliver one_session [(silence3, 1), (silence3, 1), (silence3, 1)])"]
  by (simp add: chunk_buffer_silence3 after_silence3 one_session_eq scheduled_since_def
        spec_startTimes_def upt_conv_Cons)

text \<open>
  Claim C1 as stated fails: a chunk that arrives at device time 10, after the first one
  has ended, starts at 10 and not at the first start plus the first duration.
\<close>

theorem late_chunk_starts_late:
  "map startTime (scheduled_since one_session
      (deliver one_session [(silence3, 0), (silence3, 10)])) = [0, 10] \<and>
   map (\<lambda>n. duration (buffer n)) (scheduled_since one_session
      (deliver one_session [(silence3, 0), (silence3, 10)])) = [1 / 8000, 1 / 8000] \<and>
   spec_startTimes 0 [1 / 8000, 1 / 8000] = [0, 1 / 8000] \<and>
   map startTime (scheduled_since one_session
      (deliver one_session [(silence3, 0), (silence3, 10)])) \<noteq>
     spec_startTimes 0 [1 / 8000, 1 / 8000]"
  by (simp add: after_silence3 one_session_eq scheduled_since_def
        spec_startTimes_def upt_conv_Cons)

lemma chunk_buffer_no_audio:
  "base64Audio m = Inr None \<or> base64Audio m = Inr (Some []) \<Longrightarrow> chunk_buffer m = None"
  by (auto simp add: chunk_buffer_def)

lemma onmessage_no_parts:
  "\<not> isStoppingRef s \<Longrightarrow> base64Audio m = Inl e \<Longrightarrow>
     onmessage s m now = Inl (e, transcribe m s)"
  by (simp add: onmessage_def Let_def)

lemma onmessage_interrupted:
  assumes "\<not> isStoppingRef s" and "interrupted m"
    and "base64Audio m = Inr None \<or> base64Audio m = Inr (Some []) \<or> chunk_buffer m \<noteq> None"
  shows "onmessage s m now =
     Inr ((transcribe m s)
       \<lparr>effects := effects s
           @ (case chunk_buffer m of None \<Rightarrow> []
              | Some buf \<Rightarrow> [SourceStart (nextNode s) (max (nextStartTimeRef s) now)])
           @ map SourceStop (map node_id (sourcesRef s)
               @ (case chunk_buffer m of None \<Rightarrow> [] | Some buf \<Rightarrow> [nextNode s])),
         sourcesRef := [],
         nextNode := (case chunk_buffer m of None \<Rightarrow> nextNode s | Some buf \<Rightarrow> Suc (nextNode s)),
         nextStartTimeRef := 0\<rparr>)"
proof (cases "chunk_buffer m")
  case None
  with assms(3) have na: "base64Audio m = Inr None \<or> base64Audio m = Inr (Some [])" by simp
  show ?thesis
    using assms(2) None
    by (simp add: onmessage_no_audio [OF assms(1) na] interrupt_def stop_sources_def)
next
  case (Some buf)
  show ?thesis
    using assms(2) Some
    by (simp add: onmessage_chunk [OF assms(1) Some] interrupt_def stop_sources_def
          schedule_def Let_def)
qed

lemma onmessage_throws:
  assumes "\<not> isStoppingRef s"
    and "\<not> (base64Audio m = Inr None \<or> base64Audio m = Inr (Some []) \<or> chunk_buffer m \<noteq> None)"
  shows "\<exists>e. onmessage s m now =
     Inl (e, (transcribe m s)
       \<lparr>nextStartTimeRef :=
          (if base64Audio m = Inl TypeError then nextStartTimeRef s
           else max (nextStartTimeRef s) now)\<rparr>)"
proof (cases "base64Audio m")
  case (Inl e)
  then have "e = TypeError"
    by (auto simp add: base64Audio_def split: option.splits list.splits)
  with Inl have "onmessage s m now = Inl (TypeError, transcribe m s)"
    using assms(1) by (simp add: onmessage_no_parts)
  moreover have "(transcribe m s)\<lparr>nextStartTimeRef := nextStartTimeRef s\<rparr> = transcribe m s"
    by (simp add: transcribe_def split: option.splits)
  ultimately show ?thesis using Inl \<open>e = TypeError\<close> by simp
next
  case (Inr a)
  with assms(2) obtain b where b: "base64Audio m = Inr (Some b)" "b \<noteq> []"
    by (cases a) auto
  from assms(2) have "chunk_buffer m = None" by simp
  from onmessage_malformed [OF assms(1) b this, of now] show ?thesis
    using b by simp
qed

text \<open>
  Claim C2, as amended. For every active-source set and every cursor value, a message
  carrying the interruption flag is handled as follows. With the stop latch clear and the
  message's audio part absent, empty or decodable, the handler calls \<open>stop\<close> on every
  source of the active set, any source scheduled from the same message included, leaves
  the set empty and the cursor at 0, and the next chunk then starts at the device time
  of its arrival. With the stop latch clear and an audio part that throws (a model turn
  without parts, or a payload that does not decode), the handler ends before the
  interruption block: no source is stopped, the active set is unchanged and the cursor
  is not reset. With the stop latch set the message is ignored.
\<close>

theorem interruption_resets:
  "interrupted m \<Longrightarrow> s' = after_message s m now \<Longrightarrow>
     (\<not> isStoppingRef s \<and>
      (base64Audio m = Inr None \<or> base64Audio m = Inr (Some []) \<or> chunk_buffer m \<noteq> None) \<longrightarrow>
        onmessage s m now = Inr s' \<and>
        sourcesRef s' = [] \<and> nextStartTimeRef s' = 0 \<and> \<not> isStoppingRef s' \<and>
        effects s' =
          effects s
            @ (case chunk_buffer m of None \<Rightarrow> []
               | Some buf \<Rightarrow> [SourceStart (nextNode s) (max (nextStartTimeRef s) now)])
            @ map SourceStop (map node_id (sourcesRef s)
                @ (case chunk_buffer m of None \<Rightarrow> [] | Some buf \<Rightarrow> [nextNode s])) \<and>
        (\<forall>m2 now2. \<not> interrupted m2 \<and> chunk_buffer m2 \<noteq> None \<and> 0 \<le> now2 \<longrightarrow>
           map startTime (sourcesRef (after_message s' m2 now2)) = [now2])) \<and>
     (\<not> isStoppingRef s \<and>
      \<not> (base64Audio m = Inr None \<or> base64Audio m = Inr (Some []) \<or> chunk_buffer m \<noteq> None) \<longrightarrow>
        (\<exists>e. onmessage s m now = Inl (e, s')) \<and>
        sourcesRef s' = sourcesRef s \<and> effects s' = effects s \<and>
        nextStartTimeRef s' =
          (if base64Audio m = Inl TypeError then nextStartTimeRef s
           else max (nextStartTimeRef s) now)) \<and>
     (isStoppingRef s \<longrightarrow> onmessage s m now = Inr s \<and> s' = s)"
proof -
  assume int: "interrupted m" and s': "s' = after_message s m now"
  have processed: "onmessage s m now = Inr s' \<and>
        sourcesRef s' = [] \<and> nextStartTimeRef s' = 0 \<and> \<not> isStoppingRef s' \<and>
        effects s' =
          effects s
            @ (case chunk_buffer m of None \<Rightarrow> []
               | Some buf \<Rightarrow> [SourceStart (nextNode s) (max (nextStartTimeRef s) now)])
            @ map SourceStop (map node_id (sourcesRef s)
                @ (case chunk_buffer m of None \<Rightarrow> [] | Some buf \<Rightarrow> [nextNode s])) \<and>
        (\<forall>m2 now2. \<not> interrupted m2 \<and> chunk_buffer m2 \<noteq> None \<and> 0 \<le> now2 \<longrightarrow>
           map startTime (sourcesRef (after_message s' m2 now2)) = [now2])"
    if latch: "\<not> isStoppingRef s"
      and audio: "base64Audio m = Inr None \<or> base64Audio m = Inr (Some []) \<or> chunk_buffer m \<noteq> None"
  proof -
    note run = onmessage_interrupted [OF latch int audio, of now]
    have res: "onmessage s m now = Inr s'"
      by (simp add: s' after_message_def run)
    have fields: "sourcesRef s' = []" "nextStartTimeRef s' = 0" "\<not> isStoppingRef s'"
      "effects s' =
         effects s
           @ (case chunk_buffer m of None \<Rightarrow> []
              | Some buf \<Rightarrow> [SourceStart (nextNode s) (max (nextStartTimeRef s) now)])
           @ map SourceStop (map node_id (sourcesRef s)
               @ (case chunk_buffer m of None \<Rightarrow> [] | Some buf \<Rightarrow> [nextNode s]))"
      using latch by (simp_all add: s' after_message_def run)
    have nxt: "map startTime (sourcesRef (after_message s' m2 now2)) = [now2]"
      if "\<not> interrupted m2" "chunk_buffer m2 \<noteq> None" "0 \<le> now2" for m2 now2
    proof -
      from that obtain buf where "chunk_buffer m2 = Some buf" by auto
      then show ?thesis
        using that fields
        by (simp add: after_chunk [OF fields(3) that(1)] schedule_def Let_def)
    qed
    show ?thesis using res fields nxt by blast
  qed
  have thrown: "(\<exists>e. onmessage s m now = Inl (e, s')) \<and>
        sourcesRef s' = sourcesRef s \<and> effects s' = effects s \<and>
        nextStartTimeRef s' =
          (if base64Audio m = Inl TypeError then nextStartTimeRef s
           else max (nextStartTimeRef s) now)"
    if latch: "\<not> isStoppingRef s"
      and bad: "\<not> (base64Audio m = Inr None \<or> base64Audio m = Inr (Some [])
                  \<or> chunk_buffer m \<noteq> None)"
  proof -
    from onmessage_throws [OF latch bad, of now] obtain e where
      e: "onmessage s m now =
         Inl (e, (transcribe m s)
           \<lparr>nextStartTimeRef :=
              (if base64Audio m = Inl TypeError then nextStartTimeRef s
               else max (nextStartTimeRef s) now)\<rparr>)"
      by blast
    then have eq: "s' = (transcribe m s)
           \<lparr>nextStartTimeRef :=
              (if base64Audio m = Inl TypeError then nextStartTimeRef s
               else max (nextStartTimeRef s) now)\<rparr>"
      by (simp add: s' after_message_def)
    have "\<exists>e. onmessage s m now = Inl (e, s')"
      using e eq by simp
    then show ?thesis by (simp add: eq)
  qed
  have ignored: "onmessage s m now = Inr s \<and> s' = s" if "isStoppingRef s"
    using that by (simp add: s' after_message_def onmessage_def)
  show ?thesis
    using processed thrown ignored by blast
qed

theorem interruption_resets_witness:
  "\<not> isStoppingRef playing \<and> interrupted interruption \<and> base64Audio interruption = Inr None \<and>
   map startTime (sourcesRef playing) = [1] \<and> nextStartTimeRef playing = 8001 / 8000 \<and>
   sourcesRef (after_message playing interruption 2) = [] \<and>
   nextStartTimeRef (after_message playing interruption 2) = 0 \<and>
   effects (after_message playing interruption 2) =
     [GetUserMedia, LiveConnect, CaptureConnect 0, SourceStart 0 1, SourceStop 0] \<and>
   map startTime (sourcesRef (after_message (after_message playing interruption 2) silence3 5)) = [5] \<and>
   interrupted interrupted_no_parts \<and> base64Audio interrupted_no_parts = Inl TypeError \<and>
   sourcesRef (after_message playing interrupted_no_parts 2) = sourcesRef playing \<and>
   nextStartTimeRef (after_message playing interrupted_no_parts 2) = 8001 / 8000"
proof -
  have l: "\<not> isStoppingRef playing"
    by (simp add: playing_eq)
  have i: "interrupted interruption" "base64Audio interruption = Inr None"
    by (simp_all add: interruption_def base64Audio_def)
  have c: "chunk_buffer interruption = None"
    by (simp add: chunk_buffer_no_audio i)
  have n: "\<not> interrupted silence3 \<and> chunk_buffer silence3 \<noteq> None \<and> (0::real) \<le> 5"
    by (simp add: chunk_buffer_silence3)
  note T = interruption_resets [OF i(1) refl, of playing 2]
  have e1: "sourcesRef (after_message playing interruption 2) = []"
    and e2: "nextStartTimeRef (after_message playing interruption 2) = 0"
    using T l i(2) by blast+
  have "effects (after_message playing interruption 2) =
      effects playing
        @ (case chunk_buffer interruption of None \<Rightarrow> []
           | Some buf \<Rightarrow> [SourceStart (nextNode playing) (max (nextStartTimeRef playing) 2)])
        @ map SourceStop (map node_id (sourcesRef playing)
            @ (case chunk_buffer interruption of None \<Rightarrow> [] | Some buf \<Rightarrow> [nextNode playing]))"
    using T l i(2) by blast
  then have e3: "effects (after_message playing interruption 2) =
      [GetUserMedia, LiveConnect, CaptureConnect 0, SourceStart 0 1, SourceStop 0]"
    by (simp add: c playing_eq)
  have e4: "map startTime
      (sourcesRef (after_message (after_message playing interruption 2) silence3 5)) = [5]"
    using T l i(2) n by blast
  have j: "interrupted interrupted_no_parts" "base64Audio interrupted_no_parts = Inl TypeError"
    by (simp_all add: interrupted_no_parts_def base64Audio_def)
  have cj: "chunk_buffer interrupted_no_parts = None"
    by (simp add: chunk_buffer_def j)
  note U = interruption_resets [OF j(1) refl, of playing 2]
  have bad: "\<not> (base64Audio interrupted_no_parts = Inr None
      \<or> base64Audio interrupted_no_parts = Inr (Some [])
      \<or> chunk_buffer interrupted_no_parts \<noteq> None)"
    by (simp add: j cj)
  have e5: "sourcesRef (after_message playing interrupted_no_parts 2) = sourcesRef playing"
    using U l bad by blast
  have "nextStartTimeRef (after_message playing interrupted_no_parts 2) =
      (if base64Audio interrupted_no_parts = Inl TypeError then nextStartTimeRef playing
       else max (nextStartTimeRef playing) 2)"
    using U l bad by blast
  then have e6: "nextStartTimeRef (after_message playing interrupted_no_parts 2) = 8001 / 8000"
    by (simp add: j playing_eq)
  have p: "map startTime (sourcesRef playing) = [1]" "nextStartTimeRef playing = 8001 / 8000"
    by (simp_all add: playing_eq)
  show ?thesis
    using l i p e1 e2 e3 e4 j e5 e6 by simp
qed

text \<open>
  Claim C2 as stated fails: an interruption flag that arrives in a message whose payload
  has three bytes is not processed. The \<open>RangeError\<close> of the decoding leaves the handler
  before the interruption block; the scheduled source is not stopped, the active set is
  not emptied and the cursor is 2, not 0.
\<close>

theorem interruption_lost_with_bad_audio:
  "interrupted interrupted_odd_payload \<and> \<not> isStoppingRef playing \<and>
   onmessage playing interrupted_odd_payload 2 =
     Inl (RangeError, playing\<lparr>nextStartTimeRef := 2\<rparr>) \<and>
   sourcesRef (after_message playing interrupted_odd_payload 2) =
     [\<lparr>node_id = 0, buffer = silent_buffer3, startTime = 1\<rparr>] \<and>
   nextStartTimeRef (after_message playing interrupted_odd_payload 2) = 2 \<and>
   effects (after_message playing interrupted_odd_payload 2) = effects playing"
proof -
  have t: "onmessage playing interrupted_odd_payload 2 =
      Inl (RangeError, playing\<lparr>nextStartTimeRef := 2\<rparr>)"
    by (simp add: onmessage_def base64Audio_def playing_eq interrupted_odd_payload_def
          transcribe_def codec_defs)
  show ?thesis
    by (simp add: after_message_def t) (simp add: playing_eq interrupted_odd_payload_def)
qed

text \<open>
  Claim C9, as amended. A message whose audio part does not decode makes the handler
  throw: the decode error is not caught inside \<open>onmessage\<close>, and what follows the
  decoding in the handler (the interruption flag of the same message) is skipped. The
  chunk is dropped: no source is scheduled and no call is made. The session is not
  terminated: the stop latch stays clear and the session handle and the active flag are
  unchanged; only the message's transcription and the cursor's catch-up to the device
  time remain. The next decodable chunk is scheduled as usual.
\<close>

theorem malformed_chunk_dropped:
  "\<not> isStoppingRef s \<Longrightarrow> base64Audio m = Inr (Some b) \<Longrightarrow> b \<noteq> [] \<Longrightarrow> chunk_buffer m = None \<Longrightarrow>
   s' = after_message s m now \<Longrightarrow>
     (\<exists>e. onmessage s m now = Inl (e, s')) \<and>
     s' = (transcribe m s)\<lparr>nextStartTimeRef := max (nextStartTimeRef s) now\<rparr> \<and>
     sourcesRef s' = sourcesRef s \<and> effects s' = effects s \<and>
     \<not> isStoppingRef s' \<and> sessionRef s' = sessionRef s \<and> isActive s' = isActive s \<and>
     (\<forall>m2 now2 buf. \<not> interrupted m2 \<and> chunk_buffer m2 = Some buf \<longrightarrow>
        sourcesRef (after_message s' m2 now2) =
          sourcesRef s @ [\<lparr>node_id = nextNode s, buffer = buf,
                           startTime = max (max (nextStartTimeRef s) now) now2\<rparr>])"
proof -
  assume latch: "\<not> isStoppingRef s" and b: "base64Audio m = Inr (Some b)" "b \<noteq> []"
    and bad: "chunk_buffer m = None" and s': "s' = after_message s m now"
  from onmessage_malformed [OF latch b bad, of now] obtain e where
    e: "onmessage s m now =
          Inl (e, (transcribe m s)\<lparr>nextStartTimeRef := max (nextStartTimeRef s) now\<rparr>)"
    by blast
  have eq: "s' = (transcribe m s)\<lparr>nextStartTimeRef := max (nextStartTimeRef s) now\<rparr>"
    by (simp add: s' after_message_def e)
  have thrown: "\<exists>e. onmessage s m now = Inl (e, s')"
    using e eq by simp
  have l': "\<not> isStoppingRef s'" using latch by (simp add: eq)
  have nxt: "sourcesRef (after_message s' m2 now2) =
          sourcesRef s @ [\<lparr>node_id = nextNode s, buffer = buf,
                           startTime = max (max (nextStartTimeRef s) now) now2\<rparr>]"
    if "\<not> interrupted m2" "chunk_buffer m2 = Some buf" for m2 now2 buf
    by (simp add: after_chunk [OF l' that] schedule_def Let_def) (simp add: eq)
  show ?thesis
    using thrown eq l' nxt latch by (simp add: eq)
qed

theorem malformed_chunk_dropped_witness:
  "\<not> isStoppingRef playing \<and> base64Audio odd_payload = Inr (Some ''AAAA'') \<and>
   chunk_buffer odd_payload = None \<and>
   onmessage playing odd_payload 3 = Inl (RangeError, after_message playing odd_payload 3) \<and>
   sourcesRef (after_message playing odd_payload 3) = sourcesRef playing \<and>
   map startTime (sourcesRef (after_message (after_message playing odd_payload 3) silence3 4)) =
     [1, 4]"
proof -
  have h: "\<not> isStoppingRef playing" "base64Audio odd_payload = Inr (Some ''AAAA'')" "''AAAA'' \<noteq> []"
    "chunk_buffer odd_payload = None"
    by (simp_all add: playing_eq chunk_buffer_odd_payload)
       (simp add: odd_payload_def base64Audio_def)
  have t: "onmessage playing odd_payload 3 = Inl (RangeError, playing\<lparr>nextStartTimeRef := 3\<rparr>)"
    by (simp add: onmessage_def base64Audio_def playing_eq odd_payload_def transcribe_def
          codec_defs)
  note T = malformed_chunk_dropped [OF h refl, of 3]
  have thrown: "onmessage playing odd_payload 3 =
      Inl (RangeError, after_message playing odd_payload 3)"
    using T t by auto
  have same: "sourcesRef (after_message playing odd_payload 3) = sourcesRef playing"
    using T by blast
  have "sourcesRef (after_message (after_message playing odd_payload 3) silence3 4) =
      sourcesRef playing @ [\<lparr>node_id = nextNode playing, buffer = silent_buffer3,
         startTime = max (max (nextStartTimeRef playing) 3) 4\<rparr>]"
    using T chunk_buffer_silence3 silence3_fields(1) by blast
  then have nxt: "map startTime
      (sourcesRef (after_message (after_message playing odd_payload 3) silence3 4)) = [1, 4]"
    by (simp add: playing_eq)
  show ?thesis
    using h(1,2,4) thrown same nxt by simp
qed

text \<open>
  Claim C9 as stated fails: on a payload of three bytes the \<open>RangeError\<close> of the
  \<open>Int16Array\<close> view leaves the handler.
\<close>

theorem decode_error_escapes:
  "onmessage one_session odd_payload 5 = Inl (RangeError, one_session\<lparr>nextStartTimeRef := 5\<rparr>)"
  by (simp add: onmessage_def base64Audio_def one_session_eq odd_payload_def transcribe_def
        codec_defs)

section \<open>The PCM codec round trip\<close>

lemma index_of_nth:
  "distinct xs \<Longrightarrow> n < length xs \<Longrightarrow> index_of (xs ! n) xs = Some n"
proof (induction xs arbitrary: n)
  case Nil
  then show ?case by simp
next
  case (Cons x xs)
  show ?case
  proof (cases n)
    case 0
    then show ?thesis by simp
  next
    case (Suc k)
    with Cons.prems have "xs ! k \<in> set xs" by simp
    with Cons.prems have "xs ! k \<noteq> x" by auto
    with Cons Suc show ?thesis by simp
  qed
qed

lemma b64chars_length: "length b64chars = 64"
  by (simp add: b64chars_def)

lemma b64chars_distinct: "distinct b64chars"
  unfolding b64chars_def by code_simp

lemma b64chars_no_whitespace: "c \<in> set b64chars \<Longrightarrow> \<not> is_ascii_whitespace c"
  by (auto simp add: b64chars_def is_ascii_whitespace_def)

lemma b64chars_no_pad: "CHR ''='' \<notin> set b64chars"
  by (simp add: b64chars_def)

lemma pad_no_whitespace: "\<not> is_ascii_whitespace CHR ''=''"
  by (simp add: is_ascii_whitespace_def)

lemma those_list_map_Some: "those_list (map Some xs) = Some xs"
  by (induction xs) simp_all

lemma sextets_length:
  "length (sextets xs) =
     4 * (length xs div 3) + (if length xs mod 3 = 0 then 0 else length xs mod 3 + 1)"
  by (induction xs rule: sextets.induct) simp_all

lemma div_mult_add: "r < m \<Longrightarrow> (q * m + r) div m = (q::nat)"
  by simp

lemma mod_mult_add: "r < m \<Longrightarrow> (q * m + r) mod m = (r::nat)"
  by simp

lemma byte_parts:
  fixes a :: nat
  assumes "a < 256"
  shows "a div 4 < 64" "a div 16 < 16" "a div 64 < 4"
  using assms by (simp_all add: less_mult_imp_div_less)

lemma sextets_bound:
  "\<forall>a \<in> set xs. a < 256 \<Longrightarrow> \<forall>s \<in> set (sextets xs). s < 64"
proof (induction xs rule: sextets.induct)
  case (1 a b c rest)
  then have "a < 256" "b < 256" "c < 256" by simp_all
  then have "a div 4 < 64" "b div 16 < 16" "c div 64 < 4" "a mod 4 < 4" "b mod 16 < 16"
    by (simp_all add: byte_parts)
  then have "a div 4 < 64" "(a mod 4) * 16 + b div 16 < 64" "(b mod 16) * 4 + c div 64 < 64"
    by linarith+
  with 1 show ?case by simp
next
  case (2 a b)
  then have "a < 256" "b < 256" by simp_all
  then have "a div 4 < 64" "b div 16 < 16" "a mod 4 < 4" "b mod 16 < 16"
    by (simp_all add: byte_parts)
  then have "a div 4 < 64" "(a mod 4) * 16 + b div 16 < 64" "(b mod 16) * 4 < 64"
    by linarith+
  then show ?case by simp
next
  case (3 a)
  then have "a < 256" by simp
  then have "a div 4 < 64" "a mod 4 < 4"
    by (simp_all add: byte_parts)
  then have "a div 4 < 64" "(a mod 4) * 16 < 64"
    by linarith+
  then show ?case by simp
next
  case 4
  then show ?case by simp
qed

lemma octets_sextets: "\<forall>a \<in> set xs. a < 256 \<Longrightarrow> octets (sextets xs) = xs"
proof (induction xs rule: sextets.induct)
  case (1 a b c rest)
  then have "b div 16 < 16" "c div 64 < 4"
    by (simp_all add: byte_parts)
  then have "((a mod 4) * 16 + b div 16) div 16 = a mod 4"
    "((a mod 4) * 16 + b div 16) mod 16 = b div 16"
    "((b mod 16) * 4 + c div 64) div 4 = b mod 16"
    "((b mod 16) * 4 + c div 64) mod 4 = c div 64"
    by (simp_all only: div_mult_add mod_mult_add)
  with 1 show ?case by simp
next
  case (2 a b)
  then have "b div 16 < 16"
    by (simp_all add: byte_parts)
  then have "((a mod 4) * 16 + b div 16) div 16 = a mod 4"
    "((a mod 4) * 16 + b div 16) mod 16 = b div 16"
    by (simp_all only: div_mult_add mod_mult_add)
  then show ?case by simp
next
  case (3 a)
  then show ?case by simp
next
  case 4
  then show ?case by simp
qed

lemma strip_padding_replicate:
  assumes "CHR ''='' \<notin> set cs" and "k \<le> 2"
  shows "strip_padding (cs @ replicate k CHR ''='') = cs"
proof -
  have no_tail: "drop n cs \<noteq> CHR ''='' # rest" for n rest
  proof
    assume "drop n cs = CHR ''='' # rest"
    then have "CHR ''='' \<in> set (drop n cs)" by simp
    then have "CHR ''='' \<in> set cs" by (rule in_set_dropD)
    with assms(1) show False by simp
  qed
  from assms(2) consider "k = 0" | "k = 1" | "k = 2" by linarith
  then show ?thesis
  proof cases
    case 1
    then show ?thesis by (simp add: strip_padding_def no_tail)
  next
    case 2
    have "drop (length cs - Suc 0) cs @ ''='' \<noteq> ''==''"
      using no_tail [of "length cs - Suc 0" "[]"] by simp
    with 2 show ?thesis by (simp add: strip_padding_def)
  next
    case 3
    then show ?thesis by (simp add: strip_padding_def replicate_two)
  qed
qed

lemma of_char_byte: "(of_char c :: nat) < 256"
proof -
  have "(of_char c :: nat) mod 256 < 256" by simp
  then show ?thesis by (simp only: of_char_mod_256)
qed

lemma atob_btoa: "atob (btoa bin) = Inr bin"
proof -
  define xs :: "nat list" where "xs = map of_char bin"
  define ss where "ss = sextets xs"
  define cs where "cs = map (\<lambda>n. b64chars ! n) ss"
  define k where "k = (3 - length bin mod 3) mod 3"
  have out: "btoa bin = cs @ replicate k CHR ''=''"
    by (simp add: btoa_def cs_def ss_def xs_def k_def)
  have bytes: "\<forall>a \<in> set xs. a < 256"
    by (simp add: xs_def of_char_byte)
  then have small: "\<forall>s \<in> set ss. s < 64"
    unfolding ss_def by (rule sextets_bound)
  have in_alphabet: "set cs \<subseteq> set b64chars"
    using small by (auto simp add: cs_def b64chars_length)
  have no_pad: "CHR ''='' \<notin> set cs"
    using in_alphabet b64chars_no_pad by blast
  have "\<forall>c \<in> set (cs @ replicate k CHR ''=''). \<not> is_ascii_whitespace c"
    using in_alphabet b64chars_no_whitespace pad_no_whitespace by auto
  then have kept: "filter (\<lambda>c. \<not> is_ascii_whitespace c) (cs @ replicate k CHR ''='')
      = cs @ replicate k CHR ''=''"
    by (simp only: filter_True)
  have n: "length xs = length bin" by (simp add: xs_def)
  have len_cs: "length cs =
      4 * (length bin div 3) + (if length bin mod 3 = 0 then 0 else length bin mod 3 + 1)"
    by (simp add: cs_def ss_def sextets_length n)
  have "length bin mod 3 < 3" by simp
  then consider "length bin mod 3 = 0" | "length bin mod 3 = 1" | "length bin mod 3 = 2"
    by linarith
  then have shape: "k \<le> 2 \<and> (length cs + k) mod 4 = 0 \<and> length cs mod 4 \<noteq> 1"
  proof cases
    case 1
    then have "k = 0" "length cs = 4 * (length bin div 3)"
      by (simp_all add: k_def len_cs)
    then show ?thesis by simp
  next
    case 2
    then have "k = 2" "length cs = 4 * (length bin div 3) + 2"
      by (simp_all add: k_def len_cs)
    then show ?thesis by presburger
  next
    case 3
    then have "k = 1" "length cs = 4 * (length bin div 3) + 3"
      by (simp_all add: k_def len_cs)
    then show ?thesis by presburger
  qed
  have stripped: "strip_padding (cs @ replicate k CHR ''='') = cs"
    using no_pad shape by (simp add: strip_padding_replicate)
  have "map (\<lambda>c. index_of c b64chars) cs = map Some ss"
    using small by (simp add: cs_def index_of_nth b64chars_distinct b64chars_length)
  then have found: "those_list (map (\<lambda>c. index_of c b64chars) cs) = Some ss"
    by (simp add: those_list_map_Some)
  have restored: "map char_of (octets ss) = bin"
    using octets_sextets [OF bytes] by (simp add: ss_def xs_def)
  show ?thesis
    unfolding atob_def out kept Let_def
    using shape by (simp add: stripped found restored)
qed

lemma unat_byte_mod: "unat (b :: byte) mod 256 = unat b"
proof -
  have "unat b < 2 ^ LENGTH(8)" by (rule unsigned_less)
  then show ?thesis by simp
qed

lemma decode_encode: "decode (encode bytes) = Inr bytes"
  by (simp add: decode_def encode_def atob_btoa o_def unat_byte_mod)

lemma word16_of_bytes:
  "push_bit 8 (ucast (ucast (drop_bit 8 w) :: byte)) OR ucast (ucast w :: byte) = (w :: int16)"
  by (rule bit_word_eqI) (auto simp add: bit_simps)

lemma int16_pairs_bytes: "int16_pairs (Uint8Array_of_Int16Array ws) = ws"
  by (induction ws) (simp_all add: Uint8Array_of_Int16Array_def int16_bytes_def word16_of_bytes)

lemma length_Uint8Array_of_Int16Array: "length (Uint8Array_of_Int16Array ws) = 2 * length ws"
  by (induction ws) (simp_all add: Uint8Array_of_Int16Array_def int16_bytes_def)

lemma Int16Array_of_Uint8Array: "Int16Array_of_buffer (Uint8Array_of_Int16Array ws) = Inr ws"
  by (simp add: Int16Array_of_buffer_def length_Uint8Array_of_Int16Array int16_pairs_bytes)

lemma js_trunc_close: "\<bar>real_of_int (js_trunc v) - v\<bar> < 1"
proof (cases "0 \<le> v")
  case True
  then have eq: "js_trunc v = \<lfloor>v\<rfloor>" by (simp add: js_trunc_def)
  show ?thesis unfolding eq by linarith
next
  case False
  then have eq: "js_trunc v = \<lceil>v\<rceil>" by (simp add: js_trunc_def)
  show ?thesis unfolding eq by linarith
qed

lemma js_trunc_int16:
  assumes "- 32768 \<le> v" and "v < 32768"
  shows "- 32768 \<le> js_trunc v \<and> js_trunc v < 32768"
proof (cases "0 \<le> v")
  case True
  then have "0 \<le> \<lfloor>v\<rfloor>" by simp
  moreover have "\<lfloor>v\<rfloor> < 32768" using assms(2) by (simp add: floor_less_iff)
  ultimately show ?thesis using True by (simp add: js_trunc_def)
next
  case False
  then have "\<lceil>v\<rceil> \<le> 0" by (simp add: ceiling_le_iff)
  moreover have "- 32768 \<le> \<lceil>v\<rceil>" using assms(1) by (simp add: le_ceiling_iff)
  ultimately show ?thesis using False by (simp add: js_trunc_def)
qed

lemma sint_ToInt16:
  assumes "- 32768 \<le> v" and "v < 32768"
  shows "sint (ToInt16 v) = js_trunc v"
proof -
  from js_trunc_int16 [OF assms] have "- (2 ^ 15) \<le> js_trunc v" "js_trunc v < 2 ^ 15"
    by simp_all
  then have "signed_take_bit 15 (js_trunc v) = js_trunc v"
    by (rule signed_take_bit_int_eq_self)
  then show ?thesis
    by (simp add: ToInt16_def sint_sbintrunc')
qed

lemma decodeAudioData_mono:
  assumes "ws \<noteq> []"
  shows "decodeAudioData (Uint8Array_of_Int16Array ws) 24000 1 =
       Inr \<lparr>numberOfChannels = 1, buf_length = length ws, sampleRate = 24000,
            channelData = [map (\<lambda>w. real_of_int (sint w) / 32768) ws]\<rparr>"
proof -
  have "map (\<lambda>i. real_of_int (sint (ws ! i)) / 32768) [0..<length ws] =
      map (\<lambda>w. real_of_int (sint w) / 32768) ws"
    by (rule nth_equalityI) simp_all
  then show ?thesis
    using assms
    by (simp add: decodeAudioData_def Int16Array_of_Uint8Array createBuffer_def)
qed

text \<open>
  Claim C4, as amended. For every non-empty sequence of samples with values in
  \<open>[-1, 1)\<close>, decoding the encoded frame (base64-decode, reinterpret as little-endian
  signed 16-bit integers, divide by 32768, as \<open>decodeAudioData\<close> composed with \<open>decode\<close>
  does for one channel) yields one channel with one value per sample, each the sample
  scaled by 32768, truncated towards zero and divided by 32768, and so within 1/32768 of
  the original sample.
\<close>

theorem pcm_round_trip:
  "inputData \<noteq> [] \<Longrightarrow> \<forall>x \<in> set inputData. - 1 \<le> x \<and> x < 1 \<Longrightarrow>
     \<exists>bytes buf.
       decode (encodeFrame inputData) = Inr bytes \<and>
       decodeAudioData bytes 24000 1 = Inr buf \<and>
       numberOfChannels buf = 1 \<and> buf_length buf = length inputData \<and>
       channelData buf = [map (\<lambda>x. real_of_int (js_trunc (x * 32768)) / 32768) inputData] \<and>
       (\<forall>i<length inputData. \<bar>channelData buf ! 0 ! i - inputData ! i\<bar> < 1 / 32768)"
proof -
  assume ne: "inputData \<noteq> []" and range: "\<forall>x \<in> set inputData. - 1 \<le> x \<and> x < 1"
  let ?ws = "pcm_int16 inputData"
  let ?bytes = "Uint8Array_of_Int16Array ?ws"
  let ?out = "map (\<lambda>x. real_of_int (js_trunc (x * 32768)) / 32768) inputData"
  let ?buf = "\<lparr>numberOfChannels = 1, buf_length = length inputData, sampleRate = 24000,
            channelData = [?out]\<rparr>"
  have dec: "decode (encodeFrame inputData) = Inr ?bytes"
    by (simp add: encodeFrame_def decode_encode)
  have out: "map (\<lambda>w. real_of_int (sint w) / 32768) ?ws = ?out"
  proof -
    have "sint (ToInt16 (x * 32768)) = js_trunc (x * 32768)" if "x \<in> set inputData" for x
    proof -
      from range that have "- 1 \<le> x" "x < 1" by simp_all
      then have "- 32768 \<le> x * 32768" "x * 32768 < 32768" by simp_all
      then show ?thesis by (rule sint_ToInt16)
    qed
    then show ?thesis
      unfolding pcm_int16_def map_map o_def
      by (intro map_cong [OF refl]) (simp del: of_int_sint)
  qed
  have len: "length ?ws = length inputData" by (simp add: pcm_int16_def)
  have some: "?ws \<noteq> []" using ne by (simp add: pcm_int16_def)
  have buf: "decodeAudioData ?bytes 24000 1 = Inr ?buf"
    unfolding decodeAudioData_mono [OF some] out len by (rule refl)
  have close: "\<bar>channelData ?buf ! 0 ! i - inputData ! i\<bar> < 1 / 32768"
    if "i < length inputData" for i
  proof -
    let ?x = "inputData ! i"
    have "\<bar>real_of_int (js_trunc (?x * 32768)) - ?x * 32768\<bar> < 1"
      by (rule js_trunc_close)
    then have "\<bar>real_of_int (js_trunc (?x * 32768)) / 32768 - ?x\<bar> < 1 / 32768"
      by (simp add: field_simps abs_less_iff)
    then show ?thesis using that by simp
  qed
  show ?thesis
    using dec buf close by (intro exI [of _ ?bytes] exI [of _ ?buf]) simp
qed

theorem pcm_round_trip_witness:
  "[3 / 10, - 1, 0] \<noteq> ([] :: real list) \<and>
   (\<exists>bytes buf. decode (encodeFrame [3 / 10, - 1, 0]) = Inr bytes \<and>
      decodeAudioData bytes 24000 1 = Inr buf \<and>
      channelData buf = [[4915 / 16384, - 1, 0]])"
  using pcm_round_trip [of "[3 / 10, - 1, 0]"]
  by (simp add: js_trunc_def) blast

text \<open>
  Claim C4 as stated fails at the sample 1.0, which is in \<open>[-1, 1]\<close>: 32768 does not fit
  a signed 16-bit integer and wraps to -32768, so the sample comes back as -1.0.
\<close>

theorem full_scale_sample_wraps:
  "decode (encodeFrame [1]) = Inr [0, 128] \<and>
   decodeAudioData [0, 128] 24000 1 =
     Inr \<lparr>numberOfChannels = 1, buf_length = 1, sampleRate = 24000, channelData = [[- 1]]\<rparr> \<and>
   \<not> \<bar>channelData \<lparr>numberOfChannels = 1, buf_length = 1, sampleRate = 24000,
          channelData = [[- 1]]\<rparr> ! 0 ! 0 - [1] ! 0\<bar> < (1 / 32768 :: real)"
  by (simp add: decode_def atob_def is_ascii_whitespace_def strip_padding_def b64chars_def
        encode_def btoa_def decodeAudioData_def Int16Array_of_buffer_def createBuffer_def
        encodeFrame_def pcm_int16_def ToInt16_def js_trunc_def Uint8Array_of_Int16Array_def
        int16_bytes_def replicate_two upt_conv_Cons)

end
